theory Spec2Isabelle
  imports Main
begin

unbundle bit_operations_syntax

section \<open>The harness wrapper: a shallow embedding of \<^verbatim>\<open>harness_wrapper.c\<close>\<close>

text \<open>
  The program reads a file into a fixed stack buffer, forks, hands the bytes to a child
  (as piped standard input and as a command-line argument), waits for the child and turns
  the child's wait status into its own way of ending. Every answer of the operating system
  (the file system, the sizes of the chunks \<^verbatim>\<open>read\<close> returns, failing system calls,
  the child's fate, the effect of a raised signal) is a field of the environment record
  \<open>os_env\<close>; a run of \<open>main\<close> is a function of that environment and returns the
  ordered system calls of the parent and of the child together with the way the parent ends.
\<close>

subsection \<open>Constants of the source and of the platform headers\<close>

type_synonym byte = char
type_synonym memory = "nat \<Rightarrow> byte"

definition MAX_INPUT_SIZE :: nat where
  "MAX_INPUT_SIZE = 1048576"

definition PYTHON_SCRIPT :: string where
  "PYTHON_SCRIPT = ''./targeted_webview_harness.py''"

definition NUL :: byte where
  "NUL = CHR 0x00"

text \<open>Signal numbers of \<^verbatim>\<open><signal.h>\<close> on Linux.\<close>

definition SIGSEGV :: int where
  "SIGSEGV = 11"

definition SIGPIPE :: int where
  "SIGPIPE = 13"

text \<open>
  The wait-status macros of \<^verbatim>\<open><sys/wait.h>\<close>, as glibc writes them
  (\<^verbatim>\<open>bits/waitstatus.h\<close>):
  \<^verbatim>\<open>
  #define __WEXITSTATUS(status) (((status) & 0xff00) >> 8)
  #define __WTERMSIG(status)    ((status) & 0x7f)
  #define __WIFEXITED(status)   (__WTERMSIG(status) == 0)
  #define __WIFSIGNALED(status) (((signed char) (((status) & 0x7f) + 1) >> 1) > 0)
  #define __W_EXITCODE(ret, sig) ((ret) << 8 | (sig))
  \<close>
  The cast to \<^verbatim>\<open>signed char\<close> is \<open>signed_take_bit 7\<close>.
\<close>

definition WEXITSTATUS :: "int \<Rightarrow> int" where
  "WEXITSTATUS status = drop_bit 8 (status AND 0xff00)"

definition WTERMSIG :: "int \<Rightarrow> int" where
  "WTERMSIG status = status AND 0x7f"

definition WIFEXITED :: "int \<Rightarrow> bool" where
  "WIFEXITED status = (WTERMSIG status = 0)"

definition WIFSIGNALED :: "int \<Rightarrow> bool" where
  "WIFSIGNALED status = (0 < drop_bit 1 (signed_take_bit 7 ((status AND 0x7f) + 1)))"

definition W_EXITCODE :: "int \<Rightarrow> int \<Rightarrow> int" where
  "W_EXITCODE ret sig = push_bit 8 ret OR sig"

text \<open>
  \<^verbatim>\<open>size_t\<close> is 64 bits wide. The comparison \<^verbatim>\<open>write(...) != bytes_read\<close> converts the
  \<^verbatim>\<open>ssize_t\<close> on the left to \<^verbatim>\<open>size_t\<close>, so \<open>-1\<close> becomes \<open>2^64 - 1\<close>.
\<close>

definition to_size_t :: "int \<Rightarrow> nat" where
  "to_size_t i = nat (i mod 2 ^ 64)"

subsection \<open>Text written by \<^verbatim>\<open>fprintf\<close>\<close>

function dec_nat :: "nat \<Rightarrow> string" where
  "dec_nat n = (if n < 10 then [''0123456789'' ! n]
                else dec_nat (n div 10) @ [''0123456789'' ! (n mod 10)])"
  by pat_completeness auto
termination
  by (relation "measure (\<lambda>n. n)") auto

declare dec_nat.simps [simp del]

text \<open>The conversion \<^verbatim>\<open>%d\<close>.\<close>

definition dec_int :: "int \<Rightarrow> string" where
  "dec_int i = (if i < 0 then CHR ''-'' # dec_nat (nat (- i)) else dec_nat (nat i))"

definition msg_usage :: "string \<Rightarrow> string" where
  "msg_usage prog = ''Usage: '' @ prog @ '' <input_file>\<newline>''"

definition msg_truncated :: string where
  "msg_truncated = ''Warning: Input exceeded MAX_INPUT_SIZE, truncating.\<newline>''"

definition msg_no_input :: string where
  "msg_no_input = ''Error: No input read from file\<newline>''"

definition msg_pipe :: string where
  "msg_pipe = ''Error: Failed to create pipe\<newline>''"

definition msg_fork :: string where
  "msg_fork = ''Error: Failed to fork process\<newline>''"

definition msg_dup2 :: string where
  "msg_dup2 = ''Error: Failed to redirect stdin\<newline>''"

definition msg_exec :: string where
  "msg_exec = ''Error: Failed to execute Python script\<newline>''"

definition msg_write :: string where
  "msg_write = ''Error: Failed to write to pipe\<newline>''"

definition msg_wait :: string where
  "msg_wait = ''Error: Failed to wait for child process\<newline>''"

definition msg_vulnerability :: string where
  "msg_vulnerability = ''Python harness detected vulnerability, propagating crash\<newline>''"

definition msg_signal :: "int \<Rightarrow> string" where
  "msg_signal signal_num =
     ''Python harness terminated by signal: '' @ dec_int signal_num @ '', propagating crash\<newline>''"

definition msg_abnormal :: string where
  "msg_abnormal = ''Python harness terminated abnormally\<newline>''"

subsection \<open>The environment and what a run leaves behind\<close>

datatype fd = InputFile | PipeRead | PipeWrite

text \<open>
  One event per system call, in program order. \<open>EvRead count r\<close> is a \<^verbatim>\<open>read\<close> asked
  for \<open>count\<close> bytes that returned \<open>r\<close>; \<open>EvWrite bytes r\<close> is a \<^verbatim>\<open>write\<close> of \<open>bytes\<close> that
  returned \<open>r\<close>; \<open>EvWriteKilled bytes\<close> is a \<^verbatim>\<open>write\<close> during which SIGPIPE ended the
  process; \<open>EvWait (Some status)\<close> is a \<^verbatim>\<open>waitpid\<close> that stored \<open>status\<close> and
  \<open>EvWait None\<close> one that returned \<open>-1\<close>; \<open>EvStderr\<close> is a line printed on the
  diagnostic stream.
\<close>

datatype event =
    EvOpen string bool
  | EvRead nat int
  | EvClose fd
  | EvStderr string
  | EvPipe bool
  | EvFork bool
  | EvDup2 bool
  | EvExec string "string list"
  | EvExit int
  | EvWrite string int
  | EvWriteKilled string
  | EvWait "int option"
  | EvRaise int

text \<open>
  How a process ends: it returns from \<open>main\<close> (or calls \<^verbatim>\<open>exit\<close>), it is terminated by a
  signal, or it touches memory outside the input buffer (undefined behaviour in C).
\<close>

datatype proc_end = Exited int | KilledBy int | MemoryFault

text \<open>
  \<open>ReadAtMost k\<close>: this call of \<^verbatim>\<open>read\<close> transfers at most \<open>Suc k\<close> bytes (a call on a file
  with bytes left and a positive count returns at least one byte); \<open>ReadFails\<close>: it
  returns \<open>-1\<close>.
\<close>

datatype read_policy = ReadFails | ReadAtMost nat

text \<open>
  \<open>WriteAtMost k\<close>: \<^verbatim>\<open>write\<close> accepts at most \<open>k\<close> bytes; \<open>WriteFails\<close>: it returns
  \<open>-1\<close>; \<open>WriteBrokenPipe\<close>: the reading end is closed, so SIGPIPE is sent to the writer
  and, if that does not end it, \<^verbatim>\<open>write\<close> returns \<open>-1\<close>.
\<close>

datatype write_policy = WriteFails | WriteBrokenPipe | WriteAtMost nat

text \<open>
  \<open>ExecFails\<close>: \<^verbatim>\<open>execlp\<close> returns; \<open>ExecRuns status\<close>: the interpreter runs and the
  child ends with the raw wait status \<open>status\<close>.
\<close>

datatype exec_result = ExecFails | ExecRuns int

record os_env =
  argv :: "string list"
  fs :: "string \<Rightarrow> string option"
  read_sched :: "nat \<Rightarrow> read_policy"
  stack :: memory
  pipe_ok :: bool
  fork_ok :: bool
  dup2_ok :: bool
  exec_res :: exec_result
  write_res :: write_policy
  wait_ok :: bool
  sig_fatal :: "int \<Rightarrow> bool"

text \<open>
  \<open>fs\<close> gives the bytes of the files \<^verbatim>\<open>open(..., O_RDONLY)\<close> can open; \<open>read_sched i\<close>
  is the answer to the \<open>i\<close>-th \<^verbatim>\<open>read\<close>; \<open>stack\<close> is what the uninitialised array
  \<^verbatim>\<open>input_buffer\<close> holds at first; \<open>sig_fatal s\<close> says whether a signal \<open>s\<close> sent to
  this process terminates it (the default action of SIGSEGV; not so when the signal is
  ignored, blocked, or not a valid signal number).
\<close>

record run =
  parent_events :: "event list"
  child_events :: "event list"
  outcome :: proc_end

subsection \<open>System calls\<close>

definition sys_read :: "read_policy \<Rightarrow> string \<Rightarrow> nat \<Rightarrow> int \<times> string \<times> string" where
  "sys_read pol rest count =
     (case pol of
        ReadFails \<Rightarrow> (- 1, [], rest)
      | ReadAtMost k \<Rightarrow>
          (let n = min count (min (length rest) (Suc k))
           in (int n, take n rest, drop n rest)))"

text \<open>
  A store of \<open>data\<close> at offset \<open>off\<close> of an array of \<open>bsz\<close> bytes. \<open>None\<close> is a store beyond
  the array.
\<close>

definition store_bytes :: "nat \<Rightarrow> memory \<Rightarrow> nat \<Rightarrow> string \<Rightarrow> memory option" where
  "store_bytes bsz mem off data =
     (if off + length data \<le> bsz
      then Some (\<lambda>i. if off \<le> i \<and> i < off + length data then data ! (i - off) else mem i)
      else None)"

text \<open>
  The C string that starts at offset \<open>i\<close> of an array of \<open>bsz\<close> bytes: the bytes before
  the first zero byte, found by scanning upwards as \<^verbatim>\<open>execlp\<close> does. \<open>None\<close> when the
  scan leaves the array.
\<close>

function c_string_from :: "nat \<Rightarrow> memory \<Rightarrow> nat \<Rightarrow> string option" where
  "c_string_from bsz mem i =
     (if bsz \<le> i then None
      else if mem i = NUL then Some []
      else (case c_string_from bsz mem (Suc i) of
              None \<Rightarrow> None
            | Some cs \<Rightarrow> Some (mem i # cs)))"
  by pat_completeness auto
termination
  by (relation "measure (\<lambda>(bsz, mem, i). bsz - i)") auto

declare c_string_from.simps [simp del]

definition c_string :: "nat \<Rightarrow> memory \<Rightarrow> string option" where
  "c_string bsz mem = c_string_from bsz mem 0"

definition sys_write :: "os_env \<Rightarrow> nat \<Rightarrow> int option" where
  "sys_write env count =
     (case write_res env of
        WriteFails \<Rightarrow> Some (- 1)
      | WriteBrokenPipe \<Rightarrow> (if sig_fatal env SIGPIPE then None else Some (- 1))
      | WriteAtMost k \<Rightarrow> Some (int (min k count)))"

subsection \<open>\<^verbatim>\<open>read_file\<close>\<close>

text \<open>
  The loop of lines 29 to 37. \<open>bsz\<close> is the size of the array \<open>buffer\<close> points into (the C
  function does not know it), \<open>i\<close> counts the calls of \<^verbatim>\<open>read\<close>, \<open>rest\<close> is what the
  descriptor has not delivered yet, \<open>evs\<close> the events so far. \<open>bytes_read\<close> never
  exceeds \<open>max_size\<close> (lemma \<open>read_loop_bounds\<close>), so the \<^verbatim>\<open>size_t\<close> arithmetic does
  not wrap and is written on \<open>nat\<close>.
\<close>

function read_loop ::
  "(nat \<Rightarrow> read_policy) \<Rightarrow> nat \<Rightarrow> string \<Rightarrow> nat \<Rightarrow> memory \<Rightarrow> nat \<Rightarrow> nat \<Rightarrow> event list
     \<Rightarrow> (nat \<times> memory \<times> event list) option" where
  "read_loop sched i rest bsz buffer max_size bytes_read evs =
     (case sys_read (sched i) rest (max_size - bytes_read) of
        (current_read, data, rest') \<Rightarrow>
          if 0 < current_read then
            (case store_bytes bsz buffer bytes_read data of
               None \<Rightarrow> None
             | Some buffer' \<Rightarrow>
                 if max_size \<le> bytes_read + nat current_read
                 then Some (bytes_read + nat current_read, buffer',
                            evs @ [EvRead (max_size - bytes_read) current_read,
                                   EvStderr msg_truncated])
                 else read_loop sched (Suc i) rest' bsz buffer' max_size
                        (bytes_read + nat current_read)
                        (evs @ [EvRead (max_size - bytes_read) current_read]))
          else Some (bytes_read, buffer,
                     evs @ [EvRead (max_size - bytes_read) current_read]))"
  by pat_completeness auto
termination
  by (relation "measure (\<lambda>(sched, i, rest, bsz, buffer, max_size, bytes_read, evs).
                            max_size - bytes_read)") auto

declare read_loop.simps [simp del]

definition read_file ::
  "os_env \<Rightarrow> string \<Rightarrow> nat \<Rightarrow> memory \<Rightarrow> nat \<Rightarrow> (nat \<times> memory \<times> event list) option" where
  "read_file env filename bsz buffer max_size =
     (case fs env filename of
        None \<Rightarrow> Some (0, buffer, [EvOpen filename False])
      | Some contents \<Rightarrow>
          (case read_loop (read_sched env) 0 contents bsz buffer max_size 0
                  [EvOpen filename True] of
             None \<Rightarrow> None
           | Some (bytes_read, buffer', evs) \<Rightarrow>
               Some (bytes_read, buffer', evs @ [EvClose InputFile])))"

subsection \<open>\<^verbatim>\<open>main\<close>\<close>

text \<open>Lines 102 to 118: the wait status becomes the parent's own end.\<close>

definition main_status :: "os_env \<Rightarrow> int \<Rightarrow> event list \<times> proc_end" where
  "main_status env status =
     (if WIFEXITED status then
        (let exit_code = WEXITSTATUS status in
         if exit_code \<noteq> 0
         then ([EvStderr msg_vulnerability, EvRaise SIGSEGV],
               if sig_fatal env SIGSEGV then KilledBy SIGSEGV else Exited 0)
         else ([], Exited 0))
      else if WIFSIGNALED status then
        (let signal_num = WTERMSIG status in
         ([EvStderr (msg_signal signal_num), EvRaise signal_num],
          if sig_fatal env signal_num then KilledBy signal_num else Exited 0))
      else ([EvStderr msg_abnormal], Exited 1))"

text \<open>
  Lines 91 to 118, the parent after \<^verbatim>\<open>fork\<close>. \<open>status\<close> is the wait status the child
  ends with.
\<close>

definition main_parent :: "os_env \<Rightarrow> memory \<Rightarrow> nat \<Rightarrow> int \<Rightarrow> event list \<times> proc_end" where
  "main_parent env input_buffer bytes_read status =
     (let payload = map input_buffer [0..<bytes_read] in
      case sys_write env bytes_read of
        None \<Rightarrow> ([EvClose PipeRead, EvWriteKilled payload], KilledBy SIGPIPE)
      | Some written \<Rightarrow>
          if to_size_t written \<noteq> bytes_read
          then ([EvClose PipeRead, EvWrite payload written, EvStderr msg_write,
                 EvClose PipeWrite], Exited 1)
          else if \<not> wait_ok env
          then ([EvClose PipeRead, EvWrite payload written, EvClose PipeWrite,
                 EvWait None, EvStderr msg_wait], Exited 1)
          else (case main_status env status of
                  (evs, e) \<Rightarrow>
                    ([EvClose PipeRead, EvWrite payload written, EvClose PipeWrite,
                      EvWait (Some status)] @ evs, e)))"

text \<open>
  Lines 80 to 88, the child after \<^verbatim>\<open>fork\<close>: its events and the wait status it ends
  with. \<open>None\<close> when \<^verbatim>\<open>execlp\<close> would scan the argument beyond the array.
\<close>

definition main_child :: "os_env \<Rightarrow> memory \<Rightarrow> (event list \<times> int) option" where
  "main_child env input_buffer =
     (if \<not> dup2_ok env
      then Some ([EvClose PipeWrite, EvDup2 False, EvStderr msg_dup2, EvExit 1],
                 W_EXITCODE 1 0)
      else (case c_string MAX_INPUT_SIZE input_buffer of
              None \<Rightarrow> None
            | Some arg \<Rightarrow>
                (case exec_res env of
                   ExecFails \<Rightarrow>
                     Some ([EvClose PipeWrite, EvDup2 True, EvClose PipeRead,
                            EvExec ''python3'' [''python3'', PYTHON_SCRIPT, arg],
                            EvStderr msg_exec, EvExit 1],
                           W_EXITCODE 1 0)
                 | ExecRuns status \<Rightarrow>
                     Some ([EvClose PipeWrite, EvDup2 True, EvClose PipeRead,
                            EvExec ''python3'' [''python3'', PYTHON_SCRIPT, arg]],
                           status))))"

definition main :: "os_env \<Rightarrow> run" where
  "main env =
     (if length (argv env) < 2
      then \<lparr>parent_events =
              [EvStderr (msg_usage (case argv env of [] \<Rightarrow> ''(null)'' | a # _ \<Rightarrow> a))],
            child_events = [], outcome = Exited 1\<rparr>
      else
        (case read_file env (argv env ! 1) MAX_INPUT_SIZE (stack env) (MAX_INPUT_SIZE - 1) of
           None \<Rightarrow> \<lparr>parent_events = [], child_events = [], outcome = MemoryFault\<rparr>
         | Some (bytes_read, buffer, evs) \<Rightarrow>
             if bytes_read = 0
             then \<lparr>parent_events = evs @ [EvStderr msg_no_input],
                   child_events = [], outcome = Exited 1\<rparr>
             else
               (case store_bytes MAX_INPUT_SIZE buffer bytes_read [NUL] of
                  None \<Rightarrow> \<lparr>parent_events = evs, child_events = [], outcome = MemoryFault\<rparr>
                | Some input_buffer \<Rightarrow>
                    if \<not> pipe_ok env
                    then \<lparr>parent_events = evs @ [EvPipe False, EvStderr msg_pipe],
                          child_events = [], outcome = Exited 1\<rparr>
                    else if \<not> fork_ok env
                    then \<lparr>parent_events = evs @ [EvPipe True, EvFork False, EvStderr msg_fork],
                          child_events = [], outcome = Exited 1\<rparr>
                    else
                      (case main_child env input_buffer of
                         None \<Rightarrow> \<lparr>parent_events = evs @ [EvPipe True, EvFork True],
                                  child_events = [], outcome = MemoryFault\<rparr>
                       | Some (cevs, status) \<Rightarrow>
                           (case main_parent env input_buffer bytes_read status of
                              (pevs, e) \<Rightarrow>
                                \<lparr>parent_events = evs @ [EvPipe True, EvFork True] @ pevs,
                                 child_events = cevs, outcome = e\<rparr>)))))"

subsection \<open>Reading a run\<close>

text \<open>The events \<open>read_file\<close> can leave: the calls on the input file and the warning.\<close>

fun is_load_event :: "event \<Rightarrow> bool" where
  "is_load_event (EvOpen p ok) = True"
| "is_load_event (EvRead c r) = True"
| "is_load_event (EvClose f) = (f = InputFile)"
| "is_load_event (EvStderr m) = (m = msg_truncated)"
| "is_load_event e = False"

fun is_write :: "event \<Rightarrow> bool" where
  "is_write (EvWrite d r) = True"
| "is_write (EvWriteKilled d) = True"
| "is_write e = False"

fun is_wait :: "event \<Rightarrow> bool" where
  "is_wait (EvWait w) = True"
| "is_wait e = False"

fun is_raise :: "event \<Rightarrow> bool" where
  "is_raise (EvRaise s) = True"
| "is_raise e = False"

text \<open>Creating the channel or the child: \<^verbatim>\<open>pipe\<close> and \<^verbatim>\<open>fork\<close>, also when they fail.\<close>

fun is_spawn :: "event \<Rightarrow> bool" where
  "is_spawn (EvPipe ok) = True"
| "is_spawn (EvFork ok) = True"
| "is_spawn e = False"

text \<open>
  What a \<^verbatim>\<open>write\<close> put into the pipe: the first \<open>r\<close> of the bytes offered when it
  returned \<open>r \<ge> 0\<close>, nothing otherwise.
\<close>

fun written :: "event \<Rightarrow> string" where
  "written (EvWrite d r) = take (nat r) d"
| "written e = []"



subsection \<open>Concrete environments\<close>

text \<open>
  The scenario of the specification: the input file holds a script tag, every system call
  succeeds, the child ends by \<^verbatim>\<open>exit(1)\<close>, and every signal has its default, fatal
  action.
\<close>

definition env_script :: os_env where
  "env_script =
     \<lparr>argv = [''./harness_wrapper'', ''input.html''],
      fs = [''input.html'' \<mapsto> ''<script>alert(1)</script>''],
      read_sched = (\<lambda>i. ReadAtMost 4095),
      stack = (\<lambda>i. CHR ''?''),
      pipe_ok = True, fork_ok = True, dup2_ok = True,
      exec_res = ExecRuns (W_EXITCODE 1 0),
      write_res = WriteAtMost 65536,
      wait_ok = True,
      sig_fatal = (\<lambda>s. True)\<rparr>"

text \<open>The child ends by \<^verbatim>\<open>exit(0)\<close>.\<close>

definition env_clean :: os_env where
  "env_clean = env_script\<lparr>exec_res := ExecRuns (W_EXITCODE 0 0)\<rparr>"

text \<open>The child is terminated by SIGTERM (15).\<close>

definition env_child_killed :: os_env where
  "env_child_killed = env_script\<lparr>exec_res := ExecRuns (W_EXITCODE 0 15)\<rparr>"

text \<open>The child is reported as stopped by SIGSTOP (19): neither exited nor signalled.\<close>

definition env_child_stopped :: os_env where
  "env_child_stopped = env_script\<lparr>exec_res := ExecRuns (W_EXITCODE 19 0x7f)\<rparr>"

text \<open>The wrapper was started with SIGSEGV ignored (the disposition is inherited).\<close>

definition env_segv_ignored :: os_env where
  "env_segv_ignored = env_script\<lparr>sig_fatal := (\<lambda>s. s \<noteq> SIGSEGV)\<rparr>"

text \<open>The wrapper was started with SIGTERM ignored and the child is terminated by it.\<close>

definition env_term_ignored :: os_env where
  "env_term_ignored =
     env_script\<lparr>exec_res := ExecRuns (W_EXITCODE 0 15), sig_fatal := (\<lambda>s. s \<noteq> 15)\<rparr>"


text \<open>The pipe takes only ten bytes of the payload.\<close>

definition env_short_write :: os_env where
  "env_short_write = env_script\<lparr>write_res := WriteAtMost 10\<rparr>"

text \<open>\<^verbatim>\<open>execlp\<close> fails (no interpreter on the path).\<close>

definition env_exec_fails :: os_env where
  "env_exec_fails = env_script\<lparr>exec_res := ExecFails\<rparr>"

text \<open>The path names no file; the file is empty.\<close>

definition env_missing :: os_env where
  "env_missing = env_script\<lparr>argv := [''./harness_wrapper'', ''nonexistent'']\<rparr>"

definition env_empty :: os_env where
  "env_empty = env_script\<lparr>fs := [''input.html'' \<mapsto> []]\<rparr>"

text \<open>The input file holds exactly \<open>MAX_INPUT_SIZE - 1\<close> bytes: it fills the capacity and
  nothing of it is left over.\<close>

definition env_exact :: os_env where
  "env_exact = env_script\<lparr>fs := [''input.html'' \<mapsto> replicate 1048575 CHR ''a'']\<rparr>"

section \<open>Properties of the system calls and of the read loop\<close>

lemma sys_read_pos:
  assumes "sys_read pol rest count = (r, data, rest')" and "0 < r"
  shows "length data = nat r" and "nat r \<le> count" and "rest = data @ rest'"
    and "nat r \<le> length rest" and "pol \<noteq> ReadFails"
  using assms by (auto simp: sys_read_def Let_def split: read_policy.splits)

lemma sys_read_nonpos_ok:
  assumes "sys_read pol rest count = (r, data, rest')" and "\<not> 0 < r" and "pol \<noteq> ReadFails"
  shows "count = 0 \<or> rest = []"
  using assms by (auto simp: sys_read_def Let_def split: read_policy.splits)

lemma store_bytes_map:
  assumes "store_bytes bsz buffer off data = Some buf'"
  shows "map buf' [0..<off + length data] = map buffer [0..<off] @ data"
proof -
  from assms have buf': "buf' = (\<lambda>i. if off \<le> i \<and> i < off + length data then data ! (i - off) else buffer i)"
    by (auto simp: store_bytes_def split: if_splits)
  have "[0..<off + length data] = [0..<off] @ [off..<off + length data]"
    by (metis le_add1 upt_add_eq_append zero_le)
  moreover have "map buf' [0..<off] = map buffer [0..<off]"
    by (simp add: buf')
  moreover have "map buf' [off..<off + length data] = data"
    by (rule nth_equalityI) (simp_all add: buf')
  ultimately show ?thesis by simp
qed

lemma read_loop_bounds:
  "bytes_read \<le> max_size \<Longrightarrow> max_size \<le> bsz \<Longrightarrow>
   \<exists>n buf es. read_loop sched i rest bsz buffer max_size bytes_read evs = Some (n, buf, es)
      \<and> bytes_read \<le> n \<and> n \<le> max_size"
proof (induction sched i rest bsz buffer max_size bytes_read evs rule: read_loop.induct)
  case (1 sched i rest bsz buffer max_size bytes_read evs)
  obtain r data rest' where sr: "sys_read (sched i) rest (max_size - bytes_read) = (r, data, rest')"
    by (cases "sys_read (sched i) rest (max_size - bytes_read)") auto
  show ?case
  proof (cases "0 < r")
    case False
    with sr "1.prems" show ?thesis
      by (subst read_loop.simps) simp
  next
    case True
    from sys_read_pos[OF sr True] have len: "length data = nat r" and le: "nat r \<le> max_size - bytes_read"
      by simp_all
    with "1.prems" have "bytes_read + length data \<le> bsz" by simp
    then obtain buf' where st: "store_bytes bsz buffer bytes_read data = Some buf'"
      by (simp add: store_bytes_def)
    show ?thesis
    proof (cases "max_size \<le> bytes_read + nat r")
      case True
      with sr \<open>0 < r\<close> st le "1.prems" show ?thesis
        by (subst read_loop.simps) simp
    next
      case False
      with "1.IH"[OF sr[symmetric] refl \<open>0 < r\<close> st False] "1.prems"
      obtain n buf es where
        "read_loop sched (Suc i) rest' bsz buf' max_size (bytes_read + nat r)
           (evs @ [EvRead (max_size - bytes_read) r]) = Some (n, buf, es)"
        "bytes_read + nat r \<le> n" "n \<le> max_size"
        by auto
      with sr \<open>0 < r\<close> st False show ?thesis
        by (subst read_loop.simps) simp
    qed
  qed
qed

lemma read_loop_le:
  "read_loop sched i rest bsz buffer max_size bytes_read evs = Some (n, buf, es) \<Longrightarrow>
   bytes_read \<le> max_size \<Longrightarrow> n \<le> max_size"
proof (induction sched i rest bsz buffer max_size bytes_read evs rule: read_loop.induct)
  case (1 sched i rest bsz buffer max_size bytes_read evs)
  obtain r data rest' where sr: "sys_read (sched i) rest (max_size - bytes_read) = (r, data, rest')"
    by (cases "sys_read (sched i) rest (max_size - bytes_read)") auto
  show ?case
  proof (cases "0 < r")
    case False
    with sr "1.prems" show ?thesis
      by (subst (asm) read_loop.simps) simp
  next
    case True
    from sys_read_pos[OF sr True] have le: "nat r \<le> max_size - bytes_read" by simp
    show ?thesis
    proof (cases "store_bytes bsz buffer bytes_read data")
      case None
      with sr True "1.prems" show ?thesis
        by (subst (asm) read_loop.simps) simp
    next
      case (Some buf')
      show ?thesis
      proof (cases "max_size \<le> bytes_read + nat r")
        case full: True
        with sr True Some "1.prems" have "n = bytes_read + nat r"
          by (subst (asm) read_loop.simps) simp
        with le "1.prems" show ?thesis by simp
      next
        case more: False
        with sr True Some "1.prems"
        have "read_loop sched (Suc i) rest' bsz buf' max_size (bytes_read + nat r)
           (evs @ [EvRead (max_size - bytes_read) r]) = Some (n, buf, es)"
          by (subst (asm) read_loop.simps) simp
        from "1.IH"[OF sr[symmetric] refl True Some more this] more
        show ?thesis by simp
      qed
    qed
  qed
qed

lemma read_loop_content:
  "\<forall>j. sched j \<noteq> ReadFails \<Longrightarrow> bytes_read \<le> max_size \<Longrightarrow> max_size \<le> bsz \<Longrightarrow>
   \<exists>buf es. read_loop sched i rest bsz buffer max_size bytes_read evs =
              Some (min max_size (bytes_read + length rest), buf, es)
      \<and> map buf [0..<min max_size (bytes_read + length rest)] =
          map buffer [0..<bytes_read] @ take (max_size - bytes_read) rest"
proof (induction sched i rest bsz buffer max_size bytes_read evs rule: read_loop.induct)
  case (1 sched i rest bsz buffer max_size bytes_read evs)
  obtain r data rest' where sr: "sys_read (sched i) rest (max_size - bytes_read) = (r, data, rest')"
    by (cases "sys_read (sched i) rest (max_size - bytes_read)") auto
  from "1.prems" have nf: "sched i \<noteq> ReadFails" by simp
  show ?case
  proof (cases "0 < r")
    case False
    from sys_read_nonpos_ok[OF sr False nf] "1.prems"
    have "max_size = bytes_read \<or> rest = []" by auto
    then have "min max_size (bytes_read + length rest) = bytes_read"
      and "take (max_size - bytes_read) rest = []"
      using "1.prems" by auto
    with sr False show ?thesis
      by (subst read_loop.simps) simp
  next
    case True
    from sys_read_pos[OF sr True] have len: "length data = nat r"
      and le: "nat r \<le> max_size - bytes_read" and spl: "rest = data @ rest'"
      by simp_all
    with "1.prems" have "bytes_read + length data \<le> bsz" by simp
    then obtain buf' where st: "store_bytes bsz buffer bytes_read data = Some buf'"
      by (simp add: store_bytes_def)
    from store_bytes_map[OF st] len
    have m: "map buf' [0..<bytes_read + nat r] = map buffer [0..<bytes_read] @ data" by simp
    show ?thesis
    proof (cases "max_size \<le> bytes_read + nat r")
      case full: True
      with le "1.prems" have eq: "bytes_read + nat r = max_size" by simp
      then have "min max_size (bytes_read + length rest) = bytes_read + nat r"
        using spl len by simp
      moreover have "take (max_size - bytes_read) rest = data"
        using eq spl len by auto
      ultimately show ?thesis
        using sr True st full m by (subst read_loop.simps) simp
    next
      case more: False
      have "bytes_read + nat r \<le> max_size" using more by simp
      from "1.IH"[OF sr[symmetric] refl True st more "1.prems"(1) this "1.prems"(3)]
      obtain buf es where
        rl: "read_loop sched (Suc i) rest' bsz buf' max_size (bytes_read + nat r)
           (evs @ [EvRead (max_size - bytes_read) r]) =
             Some (min max_size (bytes_read + nat r + length rest'), buf, es)"
        and mm: "map buf [0..<min max_size (bytes_read + nat r + length rest')] =
          map buf' [0..<bytes_read + nat r] @ take (max_size - (bytes_read + nat r)) rest'"
        by auto
      have n: "bytes_read + nat r + length rest' = bytes_read + length rest"
        using spl len by simp
      have "take (max_size - bytes_read) rest = data @ take (max_size - (bytes_read + nat r)) rest'"
        using spl len le by simp
      with mm m n have "map buf [0..<min max_size (bytes_read + length rest)] =
          map buffer [0..<bytes_read] @ take (max_size - bytes_read) rest"
        by simp
      with rl n sr True st more show ?thesis
        by (subst read_loop.simps) simp
    qed
  qed
qed

lemma read_loop_events:
  "read_loop sched i rest bsz buffer max_size bytes_read evs = Some (n, buf, es) \<Longrightarrow>
   \<exists>rs. es = evs @ rs \<and> (\<forall>e\<in>set rs. is_load_event e)
      \<and> (EvStderr msg_truncated \<in> set rs \<longrightarrow>
            max_size \<le> n \<and> (\<forall>c r. EvRead c r \<in> set rs \<longrightarrow> 0 < r))
      \<and> (bytes_read < max_size \<and> max_size \<le> n \<longrightarrow> EvStderr msg_truncated \<in> set rs)"
proof (induction sched i rest bsz buffer max_size bytes_read evs rule: read_loop.induct)
  case (1 sched i rest bsz buffer max_size bytes_read evs)
  obtain r data rest' where sr: "sys_read (sched i) rest (max_size - bytes_read) = (r, data, rest')"
    by (cases "sys_read (sched i) rest (max_size - bytes_read)") auto
  show ?case
  proof (cases "0 < r")
    case False
    with sr "1.prems" have "n = bytes_read" "es = evs @ [EvRead (max_size - bytes_read) r]"
      by (subst (asm) read_loop.simps, simp)+
    then show ?thesis by simp
  next
    case True
    show ?thesis
    proof (cases "store_bytes bsz buffer bytes_read data")
      case None
      with sr True "1.prems" show ?thesis
        by (subst (asm) read_loop.simps) simp
    next
      case (Some buf')
      show ?thesis
      proof (cases "max_size \<le> bytes_read + nat r")
        case full: True
        with sr True Some "1.prems" have "n = bytes_read + nat r"
          "es = evs @ [EvRead (max_size - bytes_read) r, EvStderr msg_truncated]"
          by (subst (asm) read_loop.simps, simp)+
        with full True show ?thesis by simp
      next
        case more: False
        with sr True Some "1.prems"
        have "read_loop sched (Suc i) rest' bsz buf' max_size (bytes_read + nat r)
           (evs @ [EvRead (max_size - bytes_read) r]) = Some (n, buf, es)"
          by (subst (asm) read_loop.simps) simp
        from "1.IH"[OF sr[symmetric] refl True Some more this]
        obtain rs where rs: "es = (evs @ [EvRead (max_size - bytes_read) r]) @ rs"
          "\<forall>e\<in>set rs. is_load_event e"
          "EvStderr msg_truncated \<in> set rs \<longrightarrow>
            max_size \<le> n \<and> (\<forall>c r. EvRead c r \<in> set rs \<longrightarrow> 0 < r)"
          "bytes_read + nat r < max_size \<and> max_size \<le> n \<longrightarrow> EvStderr msg_truncated \<in> set rs"
          by blast
        have "es = evs @ (EvRead (max_size - bytes_read) r # rs)" using rs(1) by simp
        moreover have "\<forall>e\<in>set (EvRead (max_size - bytes_read) r # rs). is_load_event e"
          using rs(2) by simp
        moreover have "EvStderr msg_truncated \<in> set (EvRead (max_size - bytes_read) r # rs) \<longrightarrow>
            max_size \<le> n \<and> (\<forall>c r'. EvRead c r' \<in> set (EvRead (max_size - bytes_read) r # rs) \<longrightarrow> 0 < r')"
          using rs(3) True by auto
        moreover have "bytes_read < max_size \<and> max_size \<le> n \<longrightarrow>
            EvStderr msg_truncated \<in> set (EvRead (max_size - bytes_read) r # rs)"
          using rs(4) more by auto
        ultimately show ?thesis by blast
      qed
    qed
  qed
qed

subsection \<open>\<^verbatim>\<open>read_file\<close> as a whole\<close>

lemma not_load_event [simp]:
  "\<not> is_load_event (EvStderr msg_no_input)"
  by (simp add: msg_no_input_def msg_truncated_def)

lemma read_file_bounds:
  assumes "max_size \<le> bsz"
  shows "\<exists>n buf evs. read_file env path bsz buffer max_size = Some (n, buf, evs)
           \<and> n \<le> max_size \<and> (\<forall>e\<in>set evs. is_load_event e)"
proof (cases "fs env path")
  case None
  then show ?thesis by (simp add: read_file_def)
next
  case (Some xs)
  from read_loop_bounds[of 0 max_size bsz "read_sched env" 0 xs buffer "[EvOpen path True]"] assms
  obtain n buf es where
    rl: "read_loop (read_sched env) 0 xs bsz buffer max_size 0 [EvOpen path True] = Some (n, buf, es)"
    and n: "n \<le> max_size" by auto
  from read_loop_events[OF rl] obtain rs where "es = [EvOpen path True] @ rs"
    "\<forall>e\<in>set rs. is_load_event e" by blast
  with Some rl n show ?thesis by (simp add: read_file_def)
qed

lemma read_file_warning:
  assumes "read_file env path bsz buffer max_size = Some (n, buf, evs)"
    and "EvStderr msg_truncated \<in> set evs"
  shows "n = max_size \<and> (\<forall>c r. EvRead c r \<in> set evs \<longrightarrow> 0 < r)"
proof (cases "fs env path")
  case None
  with assms show ?thesis by (auto simp: read_file_def)
next
  case (Some xs)
  with assms(1) obtain es where
    rl: "read_loop (read_sched env) 0 xs bsz buffer max_size 0 [EvOpen path True] = Some (n, buf, es)"
    and evs: "evs = es @ [EvClose InputFile]"
    by (auto simp: read_file_def split: option.splits)
  from read_loop_events[OF rl] obtain rs where rs: "es = [EvOpen path True] @ rs"
    "EvStderr msg_truncated \<in> set rs \<longrightarrow>
            max_size \<le> n \<and> (\<forall>c r. EvRead c r \<in> set rs \<longrightarrow> 0 < r)" by blast
  from read_loop_le[OF rl] have "n \<le> max_size" by simp
  with assms(2) evs rs show ?thesis by auto
qed

lemma read_file_ok:
  assumes "fs env path = Some xs" and "\<forall>j. read_sched env j \<noteq> ReadFails" and "max_size \<le> bsz"
  shows "\<exists>buf evs. read_file env path bsz buffer max_size = Some (min max_size (length xs), buf, evs)
           \<and> map buf [0..<min max_size (length xs)] = take max_size xs
           \<and> (EvStderr msg_truncated \<in> set evs \<longleftrightarrow> 0 < max_size \<and> max_size \<le> length xs)"
proof -
  from read_loop_content[OF assms(2) _ assms(3), of 0 0 xs buffer "[EvOpen path True]"]
  obtain buf es where
    rl: "read_loop (read_sched env) 0 xs bsz buffer max_size 0 [EvOpen path True] =
           Some (min max_size (length xs), buf, es)"
    and m: "map buf [0..<min max_size (length xs)] = take max_size xs"
    by auto
  from read_loop_events[OF rl] obtain rs where rs: "es = [EvOpen path True] @ rs"
    "EvStderr msg_truncated \<in> set rs \<longrightarrow> max_size \<le> min max_size (length xs)"
    "0 < max_size \<and> max_size \<le> min max_size (length xs) \<longrightarrow> EvStderr msg_truncated \<in> set rs"
    by blast
  have rf: "read_file env path bsz buffer max_size =
      Some (min max_size (length xs), buf, es @ [EvClose InputFile])"
    using assms(1) rl by (simp add: read_file_def)
  have "EvStderr msg_truncated \<in> set (es @ [EvClose InputFile]) \<longleftrightarrow>
      0 < max_size \<and> max_size \<le> length xs"
  proof
    assume w: "EvStderr msg_truncated \<in> set (es @ [EvClose InputFile])"
    from read_file_warning[OF rf w] have eq: "min max_size (length xs) = max_size"
      and pos: "\<forall>c r. EvRead c r \<in> set (es @ [EvClose InputFile]) \<longrightarrow> 0 < r" by simp_all
    have "0 < max_size"
    proof (rule ccontr)
      assume "\<not> 0 < max_size"
      then have "max_size = 0" by simp
      with rl have "es = [EvOpen path True, EvRead 0 (fst (sys_read (read_sched env 0) xs 0))]"
        by (subst (asm) read_loop.simps) (auto simp: sys_read_def split: read_policy.splits prod.splits)
      with w show False by simp
    qed
    with eq show "0 < max_size \<and> max_size \<le> length xs" by simp
  next
    assume "0 < max_size \<and> max_size \<le> length xs"
    with rs show "EvStderr msg_truncated \<in> set (es @ [EvClose InputFile])" by simp
  qed
  with rf m show ?thesis by blast
qed

lemma read_file_zero:
  assumes "fs env path = None \<or> fs env path = Some []"
  shows "\<exists>evs. read_file env path bsz buffer max_size = Some (0, buffer, evs)
           \<and> (\<forall>e\<in>set evs. is_load_event e)"
proof -
  have "sys_read pol [] c = (if pol = ReadFails then - 1 else 0, [], [])" for pol c
    by (simp add: sys_read_def split: read_policy.splits)
  then have "read_loop (read_sched env) 0 [] bsz buffer max_size 0 [EvOpen path True] =
    Some (0, buffer, [EvOpen path True,
       EvRead max_size (if read_sched env 0 = ReadFails then - 1 else 0)])"
    by (subst read_loop.simps) simp
  with assms show ?thesis by (auto simp: read_file_def)
qed

text \<open>
  The test of line 33 is \<open>bytes_read \<ge> max_size\<close>: a file of exactly \<open>max_size\<close> bytes
  is read whole and the warning is printed all the same, before any \<^verbatim>\<open>read\<close> has
  reported the end of the file.
\<close>

lemma read_file_exact_capacity_warns:
  assumes "fs env path = Some xs" and "\<forall>j. read_sched env j \<noteq> ReadFails"
    and "0 < max_size" and "max_size \<le> bsz" and "length xs = max_size"
  shows "\<exists>buf evs. read_file env path bsz buffer max_size = Some (max_size, buf, evs)
           \<and> map buf [0..<max_size] = xs \<and> EvStderr msg_truncated \<in> set evs"
  using read_file_ok[OF assms(1,2,4), of buffer] assms(3,5) by auto

subsection \<open>The argument string\<close>

lemma c_string_from_terminated:
  "k < bsz \<Longrightarrow> mem k = NUL \<Longrightarrow> i \<le> k \<Longrightarrow>
   c_string_from bsz mem i = Some (takeWhile (\<lambda>c. c \<noteq> NUL) (map mem [i..<k]))"
proof (induction bsz mem i rule: c_string_from.induct)
  case (1 bsz mem i)
  show ?case
  proof (cases "mem i = NUL")
    case True
    with "1.prems" show ?thesis
      by (subst c_string_from.simps) (cases "i < k"; simp add: upt_conv_Cons)
  next
    case False
    with "1.prems" have lt: "i < k" by (cases "i = k") auto
    with "1.prems" have "\<not> bsz \<le> i" by simp
    from "1.IH"[OF this False "1.prems"(1,2)] lt
    have "c_string_from bsz mem (Suc i) = Some (takeWhile (\<lambda>c. c \<noteq> NUL) (map mem [Suc i..<k]))"
      by simp
    with False lt \<open>\<not> bsz \<le> i\<close> show ?thesis
      by (subst c_string_from.simps) (simp add: upt_conv_Cons)
  qed
qed

lemma c_string_after_store:
  assumes "store_bytes bsz buf n [NUL] = Some ib"
  shows "c_string bsz ib = Some (takeWhile (\<lambda>c. c \<noteq> NUL) (map buf [0..<n]))"
    and "map ib [0..<n] = map buf [0..<n]"
proof -
  from assms have n: "n < bsz" and ib: "ib = (\<lambda>i. if n \<le> i \<and> i < n + 1 then [NUL] ! (i - n) else buf i)"
    by (auto simp: store_bytes_def split: if_splits)
  from ib have z: "ib n = NUL" by simp
  from ib show m: "map ib [0..<n] = map buf [0..<n]" by simp
  from c_string_from_terminated[of n bsz ib 0, OF n z] m
  show "c_string bsz ib = Some (takeWhile (\<lambda>c. c \<noteq> NUL) (map buf [0..<n]))"
    by (simp add: c_string_def)
qed

section \<open>The paths through \<^verbatim>\<open>main\<close>\<close>

lemma sys_write_range:
  assumes "sys_write env count = Some w"
  shows "w = - 1 \<or> (0 \<le> w \<and> w \<le> int count)"
  using assms by (auto simp: sys_write_def split: write_policy.splits if_splits)

lemma to_size_t_short:
  assumes "w = - 1 \<or> (0 \<le> w \<and> w \<le> int n)" and "n \<le> MAX_INPUT_SIZE - 1"
  shows "to_size_t w \<noteq> n \<longleftrightarrow> w < int n"
proof -
  from assms(2) have n: "int n < 1048576" by (simp add: MAX_INPUT_SIZE_def)
  from assms(1) show ?thesis
  proof
    assume "w = - 1"
    then have "to_size_t w = 2 ^ 64 - 1" by (simp add: to_size_t_def)
    with n \<open>w = - 1\<close> show ?thesis by auto
  next
    assume "0 \<le> w \<and> w \<le> int n"
    with n have "w mod 2 ^ 64 = w" by simp
    then have "to_size_t w = nat w" by (simp add: to_size_t_def)
    with \<open>0 \<le> w \<and> w \<le> int n\<close> show ?thesis by auto
  qed
qed

lemma main_status_cases:
  obtains
    (clean) "WIFEXITED st" "WEXITSTATUS st = 0" "main_status env st = ([], Exited 0)"
  | (vulnerable) "WIFEXITED st" "WEXITSTATUS st \<noteq> 0"
      "main_status env st = ([EvStderr msg_vulnerability, EvRaise SIGSEGV],
         if sig_fatal env SIGSEGV then KilledBy SIGSEGV else Exited 0)"
  | (signalled) "\<not> WIFEXITED st" "WIFSIGNALED st"
      "main_status env st = ([EvStderr (msg_signal (WTERMSIG st)), EvRaise (WTERMSIG st)],
         if sig_fatal env (WTERMSIG st) then KilledBy (WTERMSIG st) else Exited 0)"
  | (abnormal) "\<not> WIFEXITED st" "\<not> WIFSIGNALED st"
      "main_status env st = ([EvStderr msg_abnormal], Exited 1)"
  by (cases "WIFEXITED st"; cases "WEXITSTATUS st = 0"; cases "WIFSIGNALED st")
     (simp_all add: main_status_def Let_def)

lemma WIFSIGNALED_not_WIFEXITED:
  "WIFSIGNALED st \<Longrightarrow> \<not> WIFEXITED st"
  by (auto simp: WIFSIGNALED_def WIFEXITED_def WTERMSIG_def)

lemma main_status_events:
  "\<forall>e\<in>set (fst (main_status env st)). \<not> is_write e \<and> \<not> is_wait e \<and> \<not> is_spawn e"
  by (cases rule: main_status_cases[of st env]) simp_all

lemma main_status_not_fault:
  "snd (main_status env st) \<noteq> MemoryFault"
  by (cases rule: main_status_cases[of st env]) simp_all

lemma msg_no_input_distinct:
  "msg_pipe \<noteq> msg_no_input" "msg_fork \<noteq> msg_no_input"
  "msg_write \<noteq> msg_no_input" "msg_wait \<noteq> msg_no_input"
  "msg_no_input \<noteq> msg_pipe" "msg_no_input \<noteq> msg_fork"
  "msg_no_input \<noteq> msg_write" "msg_no_input \<noteq> msg_wait"
  by (simp_all add: msg_pipe_def msg_fork_def msg_write_def msg_wait_def msg_no_input_def)

lemma main_status_no_input_msg:
  "EvStderr msg_no_input \<notin> set (fst (main_status env st))"
  by (cases rule: main_status_cases[of st env])
     (simp_all add: msg_no_input_def msg_vulnerability_def msg_signal_def msg_abnormal_def)

lemma main_parent_cases:
  assumes "main_parent env ib n st = (pevs, e)" and "n \<le> MAX_INPUT_SIZE - 1"
  obtains
    (killed) "sys_write env n = None"
      "pevs = [EvClose PipeRead, EvWriteKilled (map ib [0..<n])]" "e = KilledBy SIGPIPE"
  | (short) w where "sys_write env n = Some w" "w < int n"
      "pevs = [EvClose PipeRead, EvWrite (map ib [0..<n]) w, EvStderr msg_write, EvClose PipeWrite]"
      "e = Exited 1"
  | (wait_failed) "sys_write env n = Some (int n)" "\<not> wait_ok env"
      "pevs = [EvClose PipeRead, EvWrite (map ib [0..<n]) (int n), EvClose PipeWrite,
               EvWait None, EvStderr msg_wait]"
      "e = Exited 1"
  | (waited) "sys_write env n = Some (int n)" "wait_ok env"
      "pevs = [EvClose PipeRead, EvWrite (map ib [0..<n]) (int n), EvClose PipeWrite,
               EvWait (Some st)] @ fst (main_status env st)"
      "e = snd (main_status env st)"
proof (cases "sys_write env n")
  case None
  with assms(1) show ?thesis
    by (intro killed) (simp_all add: main_parent_def)
next
  case (Some w)
  from to_size_t_short[OF sys_write_range[OF Some] assms(2)]
  have sh: "to_size_t w \<noteq> n \<longleftrightarrow> w < int n" .
  show ?thesis
  proof (cases "w < int n")
    case True
    with Some sh assms(1) show ?thesis
      by (intro short[of w]) (simp_all add: main_parent_def)
  next
    case False
    with sys_write_range[OF Some] have w: "w = int n" by auto
    with sh have eq: "to_size_t w = n" by simp
    show ?thesis
    proof (cases "wait_ok env")
      case False
      with Some w eq assms(1) show ?thesis
        by (intro wait_failed) (simp_all add: main_parent_def)
    next
      case True
      with Some w eq assms(1) show ?thesis
        by (intro waited) (auto simp: main_parent_def split: prod.splits)
    qed
  qed
qed

lemma main_child_cases:
  assumes "main_child env ib = Some (cevs, st)" and "c_string MAX_INPUT_SIZE ib = Some arg"
  obtains
    (no_dup2) "\<not> dup2_ok env" "st = W_EXITCODE 1 0"
      "cevs = [EvClose PipeWrite, EvDup2 False, EvStderr msg_dup2, EvExit 1]"
  | (no_exec) "dup2_ok env" "exec_res env = ExecFails" "st = W_EXITCODE 1 0"
      "cevs = [EvClose PipeWrite, EvDup2 True, EvClose PipeRead,
               EvExec ''python3'' [''python3'', PYTHON_SCRIPT, arg], EvStderr msg_exec, EvExit 1]"
  | (exec) "dup2_ok env" "exec_res env = ExecRuns st"
      "cevs = [EvClose PipeWrite, EvDup2 True, EvClose PipeRead,
               EvExec ''python3'' [''python3'', PYTHON_SCRIPT, arg]]"
  using assms by (auto simp: main_child_def split: if_splits exec_result.splits)

lemma main_usage:
  assumes "length (argv env) < 2"
  shows "main env = \<lparr>parent_events =
              [EvStderr (msg_usage (case argv env of [] \<Rightarrow> ''(null)'' | a # _ \<Rightarrow> a))],
            child_events = [], outcome = Exited 1\<rparr>"
  using assms by (simp add: main_def)

lemma main_cases:
  assumes "2 \<le> length (argv env)"
  obtains
    (no_input) buf evs where
      "read_file env (argv env ! 1) MAX_INPUT_SIZE (stack env) (MAX_INPUT_SIZE - 1) = Some (0, buf, evs)"
      "\<forall>e\<in>set evs. is_load_event e"
      "main env = \<lparr>parent_events = evs @ [EvStderr msg_no_input], child_events = [],
                   outcome = Exited 1\<rparr>"
  | (no_pipe) n buf evs where
      "read_file env (argv env ! 1) MAX_INPUT_SIZE (stack env) (MAX_INPUT_SIZE - 1) = Some (n, buf, evs)"
      "0 < n" "\<forall>e\<in>set evs. is_load_event e" "\<not> pipe_ok env"
      "main env = \<lparr>parent_events = evs @ [EvPipe False, EvStderr msg_pipe], child_events = [],
                   outcome = Exited 1\<rparr>"
  | (no_fork) n buf evs where
      "read_file env (argv env ! 1) MAX_INPUT_SIZE (stack env) (MAX_INPUT_SIZE - 1) = Some (n, buf, evs)"
      "0 < n" "\<forall>e\<in>set evs. is_load_event e" "pipe_ok env" "\<not> fork_ok env"
      "main env = \<lparr>parent_events = evs @ [EvPipe True, EvFork False, EvStderr msg_fork],
                   child_events = [], outcome = Exited 1\<rparr>"
  | (spawned) n buf evs ib cevs st pevs e where
      "read_file env (argv env ! 1) MAX_INPUT_SIZE (stack env) (MAX_INPUT_SIZE - 1) = Some (n, buf, evs)"
      "0 < n" "n \<le> MAX_INPUT_SIZE - 1" "\<forall>e\<in>set evs. is_load_event e"
      "pipe_ok env" "fork_ok env"
      "map ib [0..<n] = map buf [0..<n]"
      "c_string MAX_INPUT_SIZE ib = Some (takeWhile (\<lambda>c. c \<noteq> NUL) (map buf [0..<n]))"
      "main_child env ib = Some (cevs, st)"
      "main_parent env ib n st = (pevs, e)"
      "main env = \<lparr>parent_events = evs @ [EvPipe True, EvFork True] @ pevs,
                   child_events = cevs, outcome = e\<rparr>"
      "store_bytes MAX_INPUT_SIZE buf n [NUL] = Some ib"
proof -
  have "MAX_INPUT_SIZE - 1 \<le> MAX_INPUT_SIZE" by simp
  from read_file_bounds[OF this, of env "argv env ! 1" "stack env"]
  obtain n buf evs where
    rf: "read_file env (argv env ! 1) MAX_INPUT_SIZE (stack env) (MAX_INPUT_SIZE - 1) = Some (n, buf, evs)"
    and n: "n \<le> MAX_INPUT_SIZE - 1" and ld: "\<forall>e\<in>set evs. is_load_event e"
    by blast
  from assms have a: "\<not> length (argv env) < 2" by simp
  show ?thesis
  proof (cases "n = 0")
    case True
    with rf ld a show ?thesis
      by (intro no_input[of buf evs]) (simp_all add: main_def)
  next
    case False
    then have pos: "0 < n" by simp
    from n have "n + length [NUL] \<le> MAX_INPUT_SIZE" by (simp add: MAX_INPUT_SIZE_def)
    then obtain ib where st: "store_bytes MAX_INPUT_SIZE buf n [NUL] = Some ib"
      by (simp add: store_bytes_def)
    note cs = c_string_after_store[OF st]
    show ?thesis
    proof (cases "pipe_ok env")
      case False
      with rf ld a pos st show ?thesis
        by (intro no_pipe[of n buf evs]) (simp_all add: main_def)
    next
      case pipe: True
      show ?thesis
      proof (cases "fork_ok env")
        case False
        with rf ld a pos st pipe show ?thesis
          by (intro no_fork[of n buf evs]) (simp_all add: main_def)
      next
        case fork: True
        have "\<exists>cevs s. main_child env ib = Some (cevs, s)"
          using cs(1) by (cases "exec_res env") (simp_all add: main_child_def)
        then obtain cevs s where mc: "main_child env ib = Some (cevs, s)"
          by blast
        obtain pevs e where mp: "main_parent env ib n s = (pevs, e)"
          by (cases "main_parent env ib n s") auto
        from rf ld a pos st pipe fork mc mp n cs show ?thesis
          by (intro spawned[of n buf evs ib cevs s pevs e]) (simp_all add: main_def)
      qed
    qed
  qed
qed

lemma prefix_events:
  assumes "\<forall>e\<in>set pre. is_load_event e \<or> is_spawn e \<or> e = EvClose PipeRead"
  shows "\<forall>e\<in>set pre. \<not> is_write e \<and> \<not> is_wait e \<and> e \<noteq> EvClose PipeWrite"
proof
  fix e assume "e \<in> set pre"
  with assms have "is_load_event e \<or> is_spawn e \<or> e = EvClose PipeRead" by simp
  then show "\<not> is_write e \<and> \<not> is_wait e \<and> e \<noteq> EvClose PipeWrite" by (cases e) auto
qed

lemma load_events_not_spawn:
  assumes "\<forall>e\<in>set evs. is_load_event e"
  shows "\<forall>e\<in>set evs. \<not> is_spawn e \<and> \<not> is_write e \<and> \<not> is_wait e"
proof
  fix e assume "e \<in> set evs"
  with assms have "is_load_event e" by simp
  then show "\<not> is_spawn e \<and> \<not> is_write e \<and> \<not> is_wait e" by (cases e) auto
qed

lemma main_waited:
  assumes "EvWait w \<in> set (parent_events (main env))"
  obtains pre payload where
    "\<forall>e\<in>set pre. is_load_event e \<or> is_spawn e \<or> e = EvClose PipeRead"
    "parent_events (main env) =
       pre @ [EvWrite payload (int (length payload)), EvClose PipeWrite, EvWait w] @
       (case w of None \<Rightarrow> [EvStderr msg_wait] | Some st \<Rightarrow> fst (main_status env st))"
    "outcome (main env) = (case w of None \<Rightarrow> Exited 1 | Some st \<Rightarrow> snd (main_status env st))"
    "\<forall>st. w = Some st \<longrightarrow>
       st = (if dup2_ok env
             then (case exec_res env of ExecFails \<Rightarrow> W_EXITCODE 1 0 | ExecRuns s \<Rightarrow> s)
             else W_EXITCODE 1 0)"
proof -
  have argc: "2 \<le> length (argv env)"
  proof (rule ccontr)
    assume "\<not> 2 \<le> length (argv env)"
    then have "length (argv env) < 2" by simp
    from main_usage[OF this] assms show False by simp
  qed
  have nl: "\<not> is_load_event (EvWait w)" by simp
  from argc show ?thesis
  proof (cases rule: main_cases)
    case (no_input buf evs)
    with assms nl show ?thesis by auto
  next
    case (no_pipe n buf evs)
    with assms nl show ?thesis by auto
  next
    case (no_fork n buf evs)
    with assms nl show ?thesis by auto
  next
    case (spawned n buf evs ib cevs st pevs e)
    let ?pre = "evs @ [EvPipe True, EvFork True, EvClose PipeRead]"
    have pre: "\<forall>e\<in>set ?pre. is_load_event e \<or> is_spawn e \<or> e = EvClose PipeRead"
      using spawned(4) by auto
    have len: "length (map ib [0..<n]) = n" by simp
    from spawned(9,8) have st: "st = (if dup2_ok env
             then (case exec_res env of ExecFails \<Rightarrow> W_EXITCODE 1 0 | ExecRuns s \<Rightarrow> s)
             else W_EXITCODE 1 0)"
      by (cases rule: main_child_cases) simp_all
    from spawned(10,3) show ?thesis
    proof (cases rule: main_parent_cases)
      case killed
      with assms spawned nl show ?thesis by auto
    next
      case (short w')
      with assms spawned nl show ?thesis by auto
    next
      case wait_failed
      with assms spawned nl have w: "w = None" by auto
      show ?thesis
        by (rule that[of ?pre "map ib [0..<n]"])
           (use pre w wait_failed spawned(11) in simp_all)
    next
      case waited
      have "\<forall>e\<in>set (fst (main_status env st)). \<not> is_wait e"
        by (cases rule: main_status_cases[of st env]) simp_all
      then have "EvWait w \<notin> set (fst (main_status env st))" by auto
      with assms spawned nl waited have w: "w = Some st" by auto
      show ?thesis
        by (rule that[of ?pre "map ib [0..<n]"])
           (use pre w waited spawned(11) st in simp_all)
    qed
  qed
qed

lemma main_wait_status:
  assumes "EvWait (Some st) \<in> set (parent_events (main env))"
  shows "st = (if dup2_ok env
               then (case exec_res env of ExecFails \<Rightarrow> W_EXITCODE 1 0 | ExecRuns s \<Rightarrow> s)
               else W_EXITCODE 1 0)"
  using assms
proof (rule main_waited)
  fix pre payload
  assume "\<forall>s. Some st = Some s \<longrightarrow>
       s = (if dup2_ok env
             then (case exec_res env of ExecFails \<Rightarrow> W_EXITCODE 1 0 | ExecRuns s \<Rightarrow> s)
             else W_EXITCODE 1 0)"
  then show ?thesis by blast
qed




lemma main_oversized:
  assumes "2 \<le> length (argv env)" and "fs env (argv env ! 1) = Some ys"
    and "\<forall>j. read_sched env j \<noteq> ReadFails" and "MAX_INPUT_SIZE - 1 \<le> length ys"
  shows "EvStderr msg_truncated \<in> set (parent_events (main env))
       \<and> EvStderr msg_no_input \<notin> set (parent_events (main env))"
proof -
  have le: "MAX_INPUT_SIZE - 1 \<le> MAX_INPUT_SIZE" by simp
  have pos: "0 < MAX_INPUT_SIZE - 1" by (simp add: MAX_INPUT_SIZE_def)
  from read_file_ok[OF assms(2,3) le, of "stack env"] assms(4) pos
  obtain buf0 evs0 where
    rf0: "read_file env (argv env ! 1) MAX_INPUT_SIZE (stack env) (MAX_INPUT_SIZE - 1) =
            Some (MAX_INPUT_SIZE - 1, buf0, evs0)"
    and w0: "EvStderr msg_truncated \<in> set evs0"
    by (auto simp: min_def)
  have ni: "EvStderr msg_no_input \<notin> set evs" if "\<forall>e\<in>set evs. is_load_event e" for evs
    using that not_load_event by blast
  from assms(1) show ?thesis
  proof (cases rule: main_cases)
    case (no_input buf evs)
    with rf0 pos show ?thesis by simp
  next
    case (no_pipe n buf evs)
    with rf0 w0 ni[OF no_pipe(3)] show ?thesis
      by (simp add: msg_no_input_distinct)
  next
    case (no_fork n buf evs)
    with rf0 w0 ni[OF no_fork(3)] show ?thesis
      by (simp add: msg_no_input_distinct)
  next
    case (spawned n buf evs ib cevs st pevs e)
    from spawned(1) rf0 w0 have w: "EvStderr msg_truncated \<in> set evs" by simp
    from spawned(10,3) have "EvStderr msg_no_input \<notin> set pevs"
      by (cases rule: main_parent_cases)
         (simp_all add: main_status_no_input_msg msg_no_input_distinct)
    with spawned(11) w ni[OF spawned(4)] show ?thesis by simp
  qed
qed

subsection \<open>A failing \<^verbatim>\<open>execlp\<close>\<close>

lemma read_file_exec_res [simp]:
  "read_file (env\<lparr>exec_res := x\<rparr>) = read_file env"
  by (intro ext) (simp add: read_file_def cong: option.case_cong)

lemma sys_write_exec_res [simp]:
  "sys_write (env\<lparr>exec_res := x\<rparr>) = sys_write env"
  by (intro ext) (simp add: sys_write_def cong: write_policy.case_cong)

lemma main_status_exec_res [simp]:
  "main_status (env\<lparr>exec_res := x\<rparr>) = main_status env"
  by (intro ext) (simp add: main_status_def)

lemma main_parent_exec_res [simp]:
  "main_parent (env\<lparr>exec_res := x\<rparr>) = main_parent env"
  by (intro ext) (simp add: main_parent_def cong: option.case_cong if_cong)

lemma main_exec_fails_parent:
  assumes "exec_res env = ExecFails"
  shows "parent_events (main (env\<lparr>exec_res := ExecRuns (W_EXITCODE 1 0)\<rparr>)) =
           parent_events (main env)
       \<and> outcome (main (env\<lparr>exec_res := ExecRuns (W_EXITCODE 1 0)\<rparr>)) = outcome (main env)"
proof (cases "2 \<le> length (argv env)")
  case False
  then show ?thesis by (simp add: main_def)
next
  case True
  then have a: "\<not> length (argv env) < 2" by simp
  from True show ?thesis
  proof (cases rule: main_cases)
    case (spawned n buf evs ib cevs st pevs e)
    from spawned(9,8) assms have st: "st = W_EXITCODE 1 0"
      by (cases rule: main_child_cases) simp_all
    have "\<exists>cevs'. main_child (env\<lparr>exec_res := ExecRuns (W_EXITCODE 1 0)\<rparr>) ib =
        Some (cevs', W_EXITCODE 1 0)"
      using spawned(8) by (simp add: main_child_def)
    then obtain cevs' where
      mc: "main_child (env\<lparr>exec_res := ExecRuns (W_EXITCODE 1 0)\<rparr>) ib =
             Some (cevs', W_EXITCODE 1 0)"
      by blast
    from spawned(1,2,5,6,10,12) a mc st
    have "main (env\<lparr>exec_res := ExecRuns (W_EXITCODE 1 0)\<rparr>) =
        \<lparr>parent_events = evs @ [EvPipe True, EvFork True] @ pevs,
         child_events = cevs', outcome = e\<rparr>"
      by (simp add: main_def)
    with spawned(11) show ?thesis by simp
  next
    case (no_input buf evs)
    with a show ?thesis by (simp add: main_def)
  next
    case (no_pipe n buf evs)
    with a have "main (env\<lparr>exec_res := ExecRuns (W_EXITCODE 1 0)\<rparr>) = main env"
      by (simp add: main_def split: option.splits)
    then show ?thesis by simp
  next
    case (no_fork n buf evs)
    with a have "main (env\<lparr>exec_res := ExecRuns (W_EXITCODE 1 0)\<rparr>) = main env"
      by (simp add: main_def split: option.splits)
    then show ?thesis by simp
  qed
qed

section \<open>Runs in the concrete environments\<close>

lemmas run_defs = main_def read_file_def main_child_def main_parent_def main_status_def
  sys_read_def sys_write_def store_bytes_def c_string_def to_size_t_def MAX_INPUT_SIZE_def
  WIFEXITED_def WEXITSTATUS_def WTERMSIG_def WIFSIGNALED_def W_EXITCODE_def
  read_loop.simps c_string_from.simps Let_def NUL_def upt_conv_Cons

lemma status_values:
  "WIFEXITED 0" "WEXITSTATUS 0 = 0"
  "WIFEXITED 256" "WEXITSTATUS 256 = 1"
  "\<not> WIFEXITED 15" "WIFSIGNALED 15" "WTERMSIG 15 = 15"
  "\<not> WIFEXITED 4991" "\<not> WIFSIGNALED 4991"
  by (simp_all add: WIFEXITED_def WEXITSTATUS_def WTERMSIG_def WIFSIGNALED_def)

lemma run_env_script:
  "main env_script =
     \<lparr>parent_events =
        [EvOpen ''input.html'' True, EvRead 1048575 25, EvRead 1048550 0, EvClose InputFile,
         EvPipe True, EvFork True, EvClose PipeRead,
         EvWrite ''<script>alert(1)</script>'' 25, EvClose PipeWrite, EvWait (Some 256),
         EvStderr msg_vulnerability, EvRaise SIGSEGV],
      child_events =
        [EvClose PipeWrite, EvDup2 True, EvClose PipeRead,
         EvExec ''python3'' [''python3'', PYTHON_SCRIPT, ''<script>alert(1)</script>'']],
      outcome = KilledBy SIGSEGV\<rparr>"
  by (simp add: env_script_def run_defs)

lemma run_env_clean:
  "main env_clean =
     \<lparr>parent_events =
        [EvOpen ''input.html'' True, EvRead 1048575 25, EvRead 1048550 0, EvClose InputFile,
         EvPipe True, EvFork True, EvClose PipeRead,
         EvWrite ''<script>alert(1)</script>'' 25, EvClose PipeWrite, EvWait (Some 0)],
      child_events =
        [EvClose PipeWrite, EvDup2 True, EvClose PipeRead,
         EvExec ''python3'' [''python3'', PYTHON_SCRIPT, ''<script>alert(1)</script>'']],
      outcome = Exited 0\<rparr>"
  by (simp add: env_clean_def env_script_def run_defs)

lemma run_env_child_killed:
  "main env_child_killed =
     \<lparr>parent_events =
        [EvOpen ''input.html'' True, EvRead 1048575 25, EvRead 1048550 0, EvClose InputFile,
         EvPipe True, EvFork True, EvClose PipeRead,
         EvWrite ''<script>alert(1)</script>'' 25, EvClose PipeWrite, EvWait (Some 15),
         EvStderr ''Python harness terminated by signal: 15, propagating crash\<newline>'',
         EvRaise 15],
      child_events =
        [EvClose PipeWrite, EvDup2 True, EvClose PipeRead,
         EvExec ''python3'' [''python3'', PYTHON_SCRIPT, ''<script>alert(1)</script>'']],
      outcome = KilledBy 15\<rparr>"
  by (simp add: env_child_killed_def env_script_def run_defs msg_signal_def dec_int_def dec_nat.simps)

lemma run_env_child_stopped:
  "main env_child_stopped =
     \<lparr>parent_events =
        [EvOpen ''input.html'' True, EvRead 1048575 25, EvRead 1048550 0, EvClose InputFile,
         EvPipe True, EvFork True, EvClose PipeRead,
         EvWrite ''<script>alert(1)</script>'' 25, EvClose PipeWrite, EvWait (Some 4991),
         EvStderr msg_abnormal],
      child_events =
        [EvClose PipeWrite, EvDup2 True, EvClose PipeRead,
         EvExec ''python3'' [''python3'', PYTHON_SCRIPT, ''<script>alert(1)</script>'']],
      outcome = Exited 1\<rparr>"
  by (simp add: env_child_stopped_def env_script_def run_defs)

lemma run_env_segv_ignored:
  "main env_segv_ignored =
     \<lparr>parent_events =
        [EvOpen ''input.html'' True, EvRead 1048575 25, EvRead 1048550 0, EvClose InputFile,
         EvPipe True, EvFork True, EvClose PipeRead,
         EvWrite ''<script>alert(1)</script>'' 25, EvClose PipeWrite, EvWait (Some 256),
         EvStderr msg_vulnerability, EvRaise SIGSEGV],
      child_events =
        [EvClose PipeWrite, EvDup2 True, EvClose PipeRead,
         EvExec ''python3'' [''python3'', PYTHON_SCRIPT, ''<script>alert(1)</script>'']],
      outcome = Exited 0\<rparr>"
  by (simp add: env_segv_ignored_def env_script_def run_defs)

lemma run_env_term_ignored:
  "main env_term_ignored =
     \<lparr>parent_events =
        [EvOpen ''input.html'' True, EvRead 1048575 25, EvRead 1048550 0, EvClose InputFile,
         EvPipe True, EvFork True, EvClose PipeRead,
         EvWrite ''<script>alert(1)</script>'' 25, EvClose PipeWrite, EvWait (Some 15),
         EvStderr ''Python harness terminated by signal: 15, propagating crash\<newline>'',
         EvRaise 15],
      child_events =
        [EvClose PipeWrite, EvDup2 True, EvClose PipeRead,
         EvExec ''python3'' [''python3'', PYTHON_SCRIPT, ''<script>alert(1)</script>'']],
      outcome = Exited 0\<rparr>"
  by (simp add: env_term_ignored_def env_script_def run_defs msg_signal_def dec_int_def dec_nat.simps)


lemma run_env_short_write:
  "main env_short_write =
     \<lparr>parent_events =
        [EvOpen ''input.html'' True, EvRead 1048575 25, EvRead 1048550 0, EvClose InputFile,
         EvPipe True, EvFork True, EvClose PipeRead,
         EvWrite ''<script>alert(1)</script>'' 10, EvStderr msg_write, EvClose PipeWrite],
      child_events =
        [EvClose PipeWrite, EvDup2 True, EvClose PipeRead,
         EvExec ''python3'' [''python3'', PYTHON_SCRIPT, ''<script>alert(1)</script>'']],
      outcome = Exited 1\<rparr>"
  by (simp add: env_short_write_def env_script_def run_defs)

lemma run_env_exec_fails:
  "main env_exec_fails =
     \<lparr>parent_events =
        [EvOpen ''input.html'' True, EvRead 1048575 25, EvRead 1048550 0, EvClose InputFile,
         EvPipe True, EvFork True, EvClose PipeRead,
         EvWrite ''<script>alert(1)</script>'' 25, EvClose PipeWrite, EvWait (Some 256),
         EvStderr msg_vulnerability, EvRaise SIGSEGV],
      child_events =
        [EvClose PipeWrite, EvDup2 True, EvClose PipeRead,
         EvExec ''python3'' [''python3'', PYTHON_SCRIPT, ''<script>alert(1)</script>''],
         EvStderr msg_exec, EvExit 1],
      outcome = KilledBy SIGSEGV\<rparr>"
  by (simp add: env_exec_fails_def env_script_def run_defs)

lemma run_env_missing:
  "main env_missing =
     \<lparr>parent_events = [EvOpen ''nonexistent'' False, EvStderr msg_no_input],
      child_events = [], outcome = Exited 1\<rparr>"
  by (simp add: env_missing_def env_script_def run_defs)

lemma run_env_empty:
  "main env_empty =
     \<lparr>parent_events = [EvOpen ''input.html'' True, EvRead 1048575 0, EvClose InputFile,
                       EvStderr msg_no_input],
      child_events = [], outcome = Exited 1\<rparr>"
  by (simp add: env_empty_def env_script_def run_defs)

section \<open>The claims\<close>

subsection \<open>The translation of the child's status (C1, C2, C8)\<close>

text \<open>
  Claim C1, as amended. For every wait status \<open>st\<close> that the wait step produces: if the
  child exited with code 0, the program exits with code 0 and raises no signal; if the child
  exited with a nonzero code, the last thing the program does is to raise SIGSEGV against
  itself, and it is terminated by that signal whenever SIGSEGV is fatal to the process (its
  default action); if the child neither exited nor was signalled, the program exits with
  code 1 and raises no signal.
\<close>

theorem child_exit_translation:
  assumes "EvWait (Some st) \<in> set (parent_events (main env))"
  shows "(WIFEXITED st \<and> WEXITSTATUS st = 0 \<longrightarrow>
            outcome (main env) = Exited 0
            \<and> (\<forall>e\<in>set (parent_events (main env)). \<not> is_raise e))
       \<and> (WIFEXITED st \<and> WEXITSTATUS st \<noteq> 0 \<longrightarrow>
            last (parent_events (main env)) = EvRaise SIGSEGV
            \<and> (sig_fatal env SIGSEGV \<longrightarrow> outcome (main env) = KilledBy SIGSEGV))
       \<and> (\<not> WIFEXITED st \<and> \<not> WIFSIGNALED st \<longrightarrow>
            outcome (main env) = Exited 1
            \<and> (\<forall>e\<in>set (parent_events (main env)). \<not> is_raise e))"
proof -
  from assms obtain pre payload where
    pre: "\<forall>e\<in>set pre. is_load_event e \<or> is_spawn e \<or> e = EvClose PipeRead"
    and evs: "parent_events (main env) =
       pre @ [EvWrite payload (int (length payload)), EvClose PipeWrite, EvWait (Some st)] @
       fst (main_status env st)"
    and out: "outcome (main env) = snd (main_status env st)"
    by (cases rule: main_waited) simp_all
  have nr: "\<forall>e\<in>set pre. \<not> is_raise e"
  proof
    fix e assume "e \<in> set pre"
    with pre have "is_load_event e \<or> is_spawn e \<or> e = EvClose PipeRead" by simp
    then show "\<not> is_raise e" by (cases e) auto
  qed
  show ?thesis
    by (cases rule: main_status_cases[of st env]) (use evs out nr in auto)
qed

text \<open>
  C1, witness: the three kinds of status in the environments \<open>env_clean\<close>,
  \<open>env_script\<close> and \<open>env_child_stopped\<close>.
\<close>

theorem child_exit_translation_witness:
  "EvWait (Some 0) \<in> set (parent_events (main env_clean)) \<and> WIFEXITED 0 \<and> WEXITSTATUS 0 = 0
     \<and> outcome (main env_clean) = Exited 0
   \<and> EvWait (Some 256) \<in> set (parent_events (main env_script)) \<and> WIFEXITED 256
     \<and> WEXITSTATUS 256 \<noteq> 0 \<and> sig_fatal env_script SIGSEGV
     \<and> last (parent_events (main env_script)) = EvRaise SIGSEGV
     \<and> outcome (main env_script) = KilledBy SIGSEGV
   \<and> EvWait (Some 4991) \<in> set (parent_events (main env_child_stopped))
     \<and> \<not> WIFEXITED 4991 \<and> \<not> WIFSIGNALED 4991
     \<and> outcome (main env_child_stopped) = Exited 1"
proof -
  have a: "EvWait (Some 0) \<in> set (parent_events (main env_clean))"
    by (simp add: run_env_clean)
  have b: "EvWait (Some 256) \<in> set (parent_events (main env_script))"
    by (simp add: run_env_script)
  have c: "EvWait (Some 4991) \<in> set (parent_events (main env_child_stopped))"
    by (simp add: run_env_child_stopped)
  have f: "sig_fatal env_script SIGSEGV" by (simp add: env_script_def)
  from child_exit_translation[OF a] child_exit_translation[OF b] child_exit_translation[OF c]
  show ?thesis using a b c f status_values by simp
qed

text \<open>
  C1 as first stated, with termination by the signal in every case, fails where SIGSEGV is
  ignored: the child exits with code 1, the program raises SIGSEGV, \<^verbatim>\<open>raise\<close> returns,
  and line 108 returns 0.
\<close>

theorem nonzero_exit_not_always_fatal_counterexample:
  "EvWait (Some 256) \<in> set (parent_events (main env_segv_ignored))
   \<and> WIFEXITED 256 \<and> WEXITSTATUS 256 = 1
   \<and> EvRaise SIGSEGV \<in> set (parent_events (main env_segv_ignored))
   \<and> outcome (main env_segv_ignored) = Exited 0"
  by (simp add: run_env_segv_ignored status_values)

text \<open>
  Claim C2, as amended. For every status \<open>st\<close> of a child terminated by a signal, with
  \<open>s = WTERMSIG st\<close>: the program reports \<open>s\<close> and then raises \<open>s\<close> against itself as its
  last action, and it is terminated by \<open>s\<close> whenever \<open>s\<close> is fatal to the process.
\<close>

theorem child_signal_translation:
  assumes "EvWait (Some st) \<in> set (parent_events (main env))" and "WIFSIGNALED st"
  shows "(\<exists>pre. parent_events (main env) =
            pre @ [EvStderr (msg_signal (WTERMSIG st)), EvRaise (WTERMSIG st)])
       \<and> (sig_fatal env (WTERMSIG st) \<longrightarrow> outcome (main env) = KilledBy (WTERMSIG st))"
proof -
  from assms(1) obtain pre payload where
    evs: "parent_events (main env) =
       pre @ [EvWrite payload (int (length payload)), EvClose PipeWrite, EvWait (Some st)] @
       fst (main_status env st)"
    and out: "outcome (main env) = snd (main_status env st)"
    by (cases rule: main_waited) simp_all
  from assms(2) have ne: "\<not> WIFEXITED st" by (rule WIFSIGNALED_not_WIFEXITED)
  with assms(2) have ms: "main_status env st =
      ([EvStderr (msg_signal (WTERMSIG st)), EvRaise (WTERMSIG st)],
         if sig_fatal env (WTERMSIG st) then KilledBy (WTERMSIG st) else Exited 0)"
    by (simp add: main_status_def Let_def)
  from evs ms have "parent_events (main env) =
     (pre @ [EvWrite payload (int (length payload)), EvClose PipeWrite, EvWait (Some st)]) @
       [EvStderr (msg_signal (WTERMSIG st)), EvRaise (WTERMSIG st)]" by simp
  then have "\<exists>pre. parent_events (main env) =
            pre @ [EvStderr (msg_signal (WTERMSIG st)), EvRaise (WTERMSIG st)]" by blast
  with out ms show ?thesis by simp
qed

text \<open>C2, witness: the child is terminated by SIGTERM, which is fatal to the parent too.\<close>

theorem child_signal_translation_witness:
  "EvWait (Some 15) \<in> set (parent_events (main env_child_killed)) \<and> WIFSIGNALED 15
   \<and> sig_fatal env_child_killed (WTERMSIG 15)
   \<and> EvRaise 15 \<in> set (parent_events (main env_child_killed))
   \<and> outcome (main env_child_killed) = KilledBy 15"
proof -
  have a: "EvWait (Some 15) \<in> set (parent_events (main env_child_killed))"
    by (simp add: run_env_child_killed)
  have f: "sig_fatal env_child_killed (WTERMSIG 15)"
    by (simp add: env_child_killed_def env_script_def)
  from child_signal_translation[OF a status_values(6)] f
  have "outcome (main env_child_killed) = KilledBy (WTERMSIG 15)" by simp
  with a f status_values show ?thesis by (simp add: run_env_child_killed)
qed

text \<open>
  C2 as first stated fails where the parent ignores the signal that terminated the child:
  \<^verbatim>\<open>raise(15)\<close> returns and line 118 returns 0.
\<close>

theorem child_signal_not_always_fatal_counterexample:
  "EvWait (Some 15) \<in> set (parent_events (main env_term_ignored))
   \<and> WIFSIGNALED 15 \<and> WTERMSIG 15 = 15
   \<and> EvRaise 15 \<in> set (parent_events (main env_term_ignored))
   \<and> outcome (main env_term_ignored) = Exited 0"
  by (simp add: run_env_term_ignored status_values)

text \<open>
  Claim C8. After the program has raised a signal \<open>s\<close> against itself (SIGSEGV for a
  nonzero exit code of the child, or the signal that terminated the child), control reaches
  a \<^verbatim>\<open>return 0\<close>: when \<open>s\<close> does not terminate the program, raising \<open>s\<close> is its last
  action and it exits with code 0.
\<close>

theorem raise_falls_through_to_return_0:
  assumes "EvWait (Some st) \<in> set (parent_events (main env))"
    and "(WIFEXITED st \<and> WEXITSTATUS st \<noteq> 0 \<and> s = SIGSEGV) \<or> (WIFSIGNALED st \<and> s = WTERMSIG st)"
    and "\<not> sig_fatal env s"
  shows "last (parent_events (main env)) = EvRaise s \<and> outcome (main env) = Exited 0"
proof -
  from assms(1) obtain pre payload where
    evs: "parent_events (main env) =
       pre @ [EvWrite payload (int (length payload)), EvClose PipeWrite, EvWait (Some st)] @
       fst (main_status env st)"
    and out: "outcome (main env) = snd (main_status env st)"
    by (cases rule: main_waited) simp_all
  from assms(2,3) have "main_status env st = (fst (main_status env st), Exited 0)
      \<and> last (fst (main_status env st)) = EvRaise s \<and> fst (main_status env st) \<noteq> []"
    using WIFSIGNALED_not_WIFEXITED[of st] by (auto simp: main_status_def Let_def)
  with evs out show ?thesis by (metis append_assoc last_appendR snd_conv)
qed

text \<open>C8, witness: SIGSEGV ignored after a nonzero exit code; SIGTERM ignored after a child
  terminated by SIGTERM.\<close>

theorem raise_falls_through_to_return_0_witness:
  "EvWait (Some 256) \<in> set (parent_events (main env_segv_ignored))
     \<and> WIFEXITED 256 \<and> WEXITSTATUS 256 \<noteq> 0 \<and> \<not> sig_fatal env_segv_ignored SIGSEGV
     \<and> last (parent_events (main env_segv_ignored)) = EvRaise SIGSEGV
     \<and> outcome (main env_segv_ignored) = Exited 0
   \<and> EvWait (Some 15) \<in> set (parent_events (main env_term_ignored))
     \<and> WIFSIGNALED 15 \<and> \<not> sig_fatal env_term_ignored (WTERMSIG 15)
     \<and> last (parent_events (main env_term_ignored)) = EvRaise (WTERMSIG 15)
     \<and> outcome (main env_term_ignored) = Exited 0"
proof -
  have a: "EvWait (Some 256) \<in> set (parent_events (main env_segv_ignored))"
    by (simp add: run_env_segv_ignored)
  have b: "EvWait (Some 15) \<in> set (parent_events (main env_term_ignored))"
    by (simp add: run_env_term_ignored)
  have fa: "\<not> sig_fatal env_segv_ignored SIGSEGV"
    by (simp add: env_segv_ignored_def env_script_def)
  have fb: "\<not> sig_fatal env_term_ignored (WTERMSIG 15)"
    by (simp add: env_term_ignored_def env_script_def status_values)
  have ha: "(WIFEXITED 256 \<and> WEXITSTATUS 256 \<noteq> 0 \<and> SIGSEGV = SIGSEGV)
      \<or> (WIFSIGNALED 256 \<and> SIGSEGV = WTERMSIG 256)"
    by (simp add: status_values)
  have hb: "(WIFEXITED 15 \<and> WEXITSTATUS 15 \<noteq> 0 \<and> WTERMSIG 15 = SIGSEGV)
      \<or> (WIFSIGNALED 15 \<and> WTERMSIG 15 = WTERMSIG 15)"
    by (simp add: status_values)
  from raise_falls_through_to_return_0[OF a ha fa] raise_falls_through_to_return_0[OF b hb fb]
  show ?thesis using a b fa fb status_values by simp
qed

subsection \<open>The payload on its way to the child (C3, C5, C7)\<close>




text \<open>
  Claim C5. If the \<^verbatim>\<open>write\<close> of the payload returns less than the payload's length (a
  short count or \<open>-1\<close>), the program prints the diagnostic, closes the write end of the
  pipe and exits with code 1; these are its last events, and it never calls \<^verbatim>\<open>waitpid\<close>.
\<close>

theorem short_write_exits_without_wait:
  assumes "EvWrite payload w \<in> set (parent_events (main env))" and "w < int (length payload)"
  shows "(\<exists>pre. parent_events (main env) =
            pre @ [EvWrite payload w, EvStderr msg_write, EvClose PipeWrite])
       \<and> (\<forall>e\<in>set (parent_events (main env)). \<not> is_wait e)
       \<and> outcome (main env) = Exited 1"
proof -
  have argc: "2 \<le> length (argv env)"
  proof (rule ccontr)
    assume "\<not> 2 \<le> length (argv env)"
    then have "length (argv env) < 2" by simp
    from main_usage[OF this] assms show False by simp
  qed
  have nl: "\<not> is_load_event (EvWrite payload w)" by simp
  from argc show ?thesis
  proof (cases rule: main_cases)
    case (no_input buf evs)
    with assms nl show ?thesis by auto
  next
    case (no_pipe n buf evs)
    with assms nl show ?thesis by auto
  next
    case (no_fork n buf evs)
    with assms nl show ?thesis by auto
  next
    case (spawned n buf evs ib cevs st pevs e)
    note ld = load_events_not_spawn[OF spawned(4)]
    from spawned(10,3) show ?thesis
    proof (cases rule: main_parent_cases)
      case killed
      with assms spawned nl show ?thesis by auto
    next
      case (short w')
      with assms(1) spawned nl have "payload = map ib [0..<n]" "w = w'" by auto
      with short spawned(11) have
        "parent_events (main env) = (evs @ [EvPipe True, EvFork True, EvClose PipeRead]) @
            [EvWrite payload w, EvStderr msg_write, EvClose PipeWrite]"
        "outcome (main env) = Exited 1"
        by simp_all
      moreover from this(1) ld have "\<forall>e\<in>set (parent_events (main env)). \<not> is_wait e"
        by auto
      ultimately show ?thesis by blast
    next
      case wait_failed
      with assms(1) spawned nl have "payload = map ib [0..<n]" "w = int n" by auto
      with assms(2) show ?thesis by simp
    next
      case waited
      have "EvWrite payload w \<notin> set (fst (main_status env st))"
        using main_status_events[of env st] by auto
      with waited assms(1) spawned nl have "payload = map ib [0..<n]" "w = int n" by auto
      with assms(2) show ?thesis by simp
    qed
  qed
qed

text \<open>C5, witness: the pipe takes ten of the twenty-five bytes.\<close>

theorem short_write_exits_without_wait_witness:
  "EvWrite ''<script>alert(1)</script>'' 10 \<in> set (parent_events (main env_short_write))
   \<and> (10::int) < int (length ''<script>alert(1)</script>'')
   \<and> filter is_wait (parent_events (main env_short_write)) = []
   \<and> outcome (main env_short_write) = Exited 1"
proof -
  have a: "EvWrite ''<script>alert(1)</script>'' 10 \<in> set (parent_events (main env_short_write))"
    by (simp add: run_env_short_write)
  have b: "(10::int) < int (length ''<script>alert(1)</script>'')" by simp
  from short_write_exits_without_wait[OF a b] a b show ?thesis
    by (simp add: filter_empty_conv)
qed

text \<open>
  Claim C7. In every run that reaches the wait step, the parent's events up to there end
  with a \<^verbatim>\<open>write\<close> that returned the full length of the payload, then the close of the
  write end, then \<^verbatim>\<open>waitpid\<close>: there is no wait, no write and no close of the write end
  before that write, and no write after the close.
\<close>

theorem write_and_close_before_wait:
  assumes "EvWait w \<in> set (parent_events (main env))"
  shows "\<exists>pre post payload.
           parent_events (main env) =
             pre @ [EvWrite payload (int (length payload)), EvClose PipeWrite, EvWait w] @ post
         \<and> (\<forall>e\<in>set pre. \<not> is_write e \<and> \<not> is_wait e \<and> e \<noteq> EvClose PipeWrite)
         \<and> (\<forall>e\<in>set post. \<not> is_write e \<and> \<not> is_wait e)"
proof -
  from assms obtain pre payload where
    pre: "\<forall>e\<in>set pre. is_load_event e \<or> is_spawn e \<or> e = EvClose PipeRead"
    and evs: "parent_events (main env) =
       pre @ [EvWrite payload (int (length payload)), EvClose PipeWrite, EvWait w] @
       (case w of None \<Rightarrow> [EvStderr msg_wait] | Some st \<Rightarrow> fst (main_status env st))"
    by (cases rule: main_waited) simp_all
  let ?post = "case w of None \<Rightarrow> [EvStderr msg_wait] | Some st \<Rightarrow> fst (main_status env st)"
  have "\<forall>e\<in>set ?post. \<not> is_write e \<and> \<not> is_wait e"
    using main_status_events[of env] by (cases w) simp_all
  with prefix_events[OF pre] evs show ?thesis by blast
qed

text \<open>C7, witness: the run in \<open>env_script\<close>, split at the write.\<close>

theorem write_and_close_before_wait_witness:
  "EvWait (Some 256) \<in> set (parent_events (main env_script))
   \<and> parent_events (main env_script) =
       [EvOpen ''input.html'' True, EvRead 1048575 25, EvRead 1048550 0, EvClose InputFile,
        EvPipe True, EvFork True, EvClose PipeRead] @
       [EvWrite ''<script>alert(1)</script>'' (int (length ''<script>alert(1)</script>'')),
        EvClose PipeWrite, EvWait (Some 256)] @
       [EvStderr msg_vulnerability, EvRaise SIGSEGV]"
proof -
  have a: "EvWait (Some 256) \<in> set (parent_events (main env_script))"
    by (simp add: run_env_script)
  from write_and_close_before_wait[OF a] a show ?thesis
    by (simp add: run_env_script)
qed

subsection \<open>Loading the input (C4, C6, C10)\<close>

text \<open>
  A readable file of more than \<open>max_size\<close> bytes (with a positive \<open>max_size\<close> that fits
  the array): \<open>read_file\<close> returns exactly the first \<open>max_size\<close> bytes of the file and
  prints the truncation warning.
\<close>

lemma read_file_oversized:
  assumes "fs env path = Some xs" and "\<forall>j. read_sched env j \<noteq> ReadFails"
    and "0 < max_size" and "max_size \<le> bsz" and "max_size < length xs"
  shows "\<exists>buf evs. read_file env path bsz buffer max_size = Some (max_size, buf, evs)
           \<and> map buf [0..<max_size] = take max_size xs
           \<and> EvStderr msg_truncated \<in> set evs"
  using read_file_ok[OF assms(1,2,4), of buffer] assms(3,5) by (auto simp: min_def)

text \<open>
  Claim C4 holds for a file larger than the capacity (lemma \<open>read_file_oversized\<close>), but
  it also says that the warning is printed only when the input goes on beyond the
  capacity, and there the code departs from it. Line 33 tests \<open>bytes_read \<ge> max_size\<close>
  without asking whether anything is left: for a file of exactly \<open>MAX_INPUT_SIZE - 1\<close>
  bytes \<open>read_file\<close> returns the whole file, nothing is cut off, and the program still
  prints \<^verbatim>\<open>Warning: Input exceeded MAX_INPUT_SIZE, truncating.\<close>
\<close>

theorem exact_capacity_file_gets_truncation_warning:
  "fs env_exact (argv env_exact ! 1) = Some (replicate 1048575 CHR ''a'')
   \<and> length (replicate 1048575 CHR ''a'') = MAX_INPUT_SIZE - 1
   \<and> (\<exists>buf evs.
         read_file env_exact (argv env_exact ! 1) MAX_INPUT_SIZE (stack env_exact)
           (MAX_INPUT_SIZE - 1) = Some (MAX_INPUT_SIZE - 1, buf, evs)
         \<and> map buf [0..<MAX_INPUT_SIZE - 1] = replicate 1048575 CHR ''a''
         \<and> EvStderr msg_truncated \<in> set evs)
   \<and> EvStderr msg_truncated \<in> set (parent_events (main env_exact))"
proof -
  have h: "fs env_exact (argv env_exact ! 1) = Some (replicate 1048575 CHR ''a'')"
    "\<forall>j. read_sched env_exact j \<noteq> ReadFails"
    "0 < MAX_INPUT_SIZE - 1" "MAX_INPUT_SIZE - 1 \<le> MAX_INPUT_SIZE"
    "length (replicate 1048575 CHR ''a'') = MAX_INPUT_SIZE - 1"
    "2 \<le> length (argv env_exact)"
    by (simp_all add: env_exact_def env_script_def MAX_INPUT_SIZE_def)
  from read_file_exact_capacity_warns[OF h(1-5), of "stack env_exact"]
  have one: "\<exists>buf evs.
         read_file env_exact (argv env_exact ! 1) MAX_INPUT_SIZE (stack env_exact)
           (MAX_INPUT_SIZE - 1) = Some (MAX_INPUT_SIZE - 1, buf, evs)
         \<and> map buf [0..<MAX_INPUT_SIZE - 1] = replicate 1048575 CHR ''a''
         \<and> EvStderr msg_truncated \<in> set evs" .
  from h(5) have "MAX_INPUT_SIZE - 1 \<le> length (replicate 1048575 CHR ''a'')" by simp
  from main_oversized[OF h(6) h(1) h(2) this]
  have two: "EvStderr msg_truncated \<in> set (parent_events (main env_exact))" by simp
  from h(1) h(5) one two show ?thesis by blast
qed

text \<open>
  Claim C6. A path that cannot be opened and an empty file both make \<open>read_file\<close>
  return zero bytes; and whenever \<open>read_file\<close> returns zero bytes the program prints
  the diagnostic as its last event, exits with code 1, and has neither created the pipe
  nor forked: there is no child.
\<close>

theorem no_input_exits_before_spawn:
  assumes "2 \<le> length (argv env)"
  shows "(fs env (argv env ! 1) = None \<or> fs env (argv env ! 1) = Some [] \<longrightarrow>
            (\<exists>buf evs. read_file env (argv env ! 1) MAX_INPUT_SIZE (stack env)
                          (MAX_INPUT_SIZE - 1) = Some (0, buf, evs)))
       \<and> ((\<exists>buf evs. read_file env (argv env ! 1) MAX_INPUT_SIZE (stack env)
                          (MAX_INPUT_SIZE - 1) = Some (0, buf, evs)) \<longrightarrow>
            last (parent_events (main env)) = EvStderr msg_no_input
            \<and> outcome (main env) = Exited 1
            \<and> (\<forall>e\<in>set (parent_events (main env)). \<not> is_spawn e)
            \<and> child_events (main env) = [])"
proof (intro conjI impI)
  assume "fs env (argv env ! 1) = None \<or> fs env (argv env ! 1) = Some []"
  from read_file_zero[OF this, of MAX_INPUT_SIZE "stack env" "MAX_INPUT_SIZE - 1"]
  show "\<exists>buf evs. read_file env (argv env ! 1) MAX_INPUT_SIZE (stack env)
                          (MAX_INPUT_SIZE - 1) = Some (0, buf, evs)"
    by blast
next
  assume "\<exists>buf evs. read_file env (argv env ! 1) MAX_INPUT_SIZE (stack env)
                          (MAX_INPUT_SIZE - 1) = Some (0, buf, evs)"
  then obtain buf evs where
    rf: "read_file env (argv env ! 1) MAX_INPUT_SIZE (stack env) (MAX_INPUT_SIZE - 1) =
           Some (0, buf, evs)"
    by blast
  have "MAX_INPUT_SIZE - 1 \<le> MAX_INPUT_SIZE" by simp
  from read_file_bounds[OF this, of env "argv env ! 1" "stack env"] rf
  have ld: "\<forall>e\<in>set evs. is_load_event e" by auto
  from assms rf have
    m: "main env = \<lparr>parent_events = evs @ [EvStderr msg_no_input], child_events = [],
                    outcome = Exited 1\<rparr>"
    by (simp add: main_def)
  from load_events_not_spawn[OF ld] have ns: "\<forall>e\<in>set (evs @ [EvStderr msg_no_input]). \<not> is_spawn e"
    by auto
  from m show "last (parent_events (main env)) = EvStderr msg_no_input" by simp
  from m show "outcome (main env) = Exited 1" by simp
  from m ns show "\<forall>e\<in>set (parent_events (main env)). \<not> is_spawn e" by simp
  from m show "child_events (main env) = []" by simp
qed

text \<open>C6, witness: a path that names no file, and an empty file.\<close>

theorem no_input_exits_before_spawn_witness:
  "2 \<le> length (argv env_missing) \<and> fs env_missing (argv env_missing ! 1) = None
     \<and> last (parent_events (main env_missing)) = EvStderr msg_no_input
     \<and> outcome (main env_missing) = Exited 1
     \<and> child_events (main env_missing) = []
   \<and> 2 \<le> length (argv env_empty) \<and> fs env_empty (argv env_empty ! 1) = Some []
     \<and> last (parent_events (main env_empty)) = EvStderr msg_no_input
     \<and> outcome (main env_empty) = Exited 1
     \<and> child_events (main env_empty) = []"
proof -
  have a: "2 \<le> length (argv env_missing)" "fs env_missing (argv env_missing ! 1) = None"
    by (simp_all add: env_missing_def env_script_def)
  have b: "2 \<le> length (argv env_empty)" "fs env_empty (argv env_empty ! 1) = Some []"
    by (simp_all add: env_empty_def env_script_def)
  from no_input_exits_before_spawn[OF a(1)] no_input_exits_before_spawn[OF b(1)] a b
  show ?thesis by simp
qed

text \<open>
  Claim C10. The call of \<open>read_file\<close> that \<open>main\<close> makes, with the array of
  \<open>MAX_INPUT_SIZE\<close> bytes and the capacity \<open>MAX_INPUT_SIZE - 1\<close>, returns (so every store
  of the read loop was inside the array) with at most \<open>MAX_INPUT_SIZE - 1\<close> bytes read, the
  store of the terminator at index \<open>bytes_read\<close> is inside the array, and no run of
  \<open>main\<close> ends in a memory fault.
\<close>

theorem input_buffer_stores_in_bounds:
  "(\<exists>bytes_read buffer evs.
      read_file env path MAX_INPUT_SIZE (stack env) (MAX_INPUT_SIZE - 1) =
        Some (bytes_read, buffer, evs)
      \<and> bytes_read \<le> MAX_INPUT_SIZE - 1
      \<and> bytes_read < MAX_INPUT_SIZE
      \<and> store_bytes MAX_INPUT_SIZE buffer bytes_read [NUL] \<noteq> None)
   \<and> outcome (main env) \<noteq> MemoryFault"
proof
  have "MAX_INPUT_SIZE - 1 \<le> MAX_INPUT_SIZE" by simp
  from read_file_bounds[OF this, of env path "stack env"]
  obtain n buf evs where
    rf: "read_file env path MAX_INPUT_SIZE (stack env) (MAX_INPUT_SIZE - 1) = Some (n, buf, evs)"
    and n: "n \<le> MAX_INPUT_SIZE - 1"
    by blast
  from n have lt: "n < MAX_INPUT_SIZE" by (simp add: MAX_INPUT_SIZE_def)
  then have "store_bytes MAX_INPUT_SIZE buf n [NUL] \<noteq> None"
    by (simp add: store_bytes_def)
  with rf n lt show "\<exists>bytes_read buffer evs.
      read_file env path MAX_INPUT_SIZE (stack env) (MAX_INPUT_SIZE - 1) =
        Some (bytes_read, buffer, evs)
      \<and> bytes_read \<le> MAX_INPUT_SIZE - 1
      \<and> bytes_read < MAX_INPUT_SIZE
      \<and> store_bytes MAX_INPUT_SIZE buffer bytes_read [NUL] \<noteq> None"
    by blast
next
  show "outcome (main env) \<noteq> MemoryFault"
  proof (cases "2 \<le> length (argv env)")
    case False
    then have "length (argv env) < 2" by simp
    from main_usage[OF this] show ?thesis by simp
  next
    case True
    then show ?thesis
    proof (cases rule: main_cases)
      case (spawned n buf evs ib cevs st pevs e)
      from spawned(10,3) have "e \<noteq> MemoryFault"
        by (cases rule: main_parent_cases) (simp_all add: main_status_not_fault)
      with spawned(11) show ?thesis by simp
    qed simp_all
  qed
qed

subsection \<open>A child that cannot start the interpreter (C9)\<close>

text \<open>
  Claim C9. If \<^verbatim>\<open>execlp\<close> is called and fails, the child prints its diagnostic and
  calls \<^verbatim>\<open>exit(1)\<close>. A parent that reaches the translation of the status then sees a
  child that exited with code 1, prints the vulnerability message and raises SIGSEGV; what
  the parent does and how it ends is the same as in the run where the interpreter started
  and ended by \<^verbatim>\<open>exit(1)\<close>, and it is not the exit with code 1 of a failed spawn.
\<close>

theorem exec_failure_reported_as_vulnerability:
  assumes "EvExec prog args \<in> set (child_events (main env))" and "exec_res env = ExecFails"
  shows "(\<exists>pre. child_events (main env) = pre @ [EvExec prog args, EvStderr msg_exec, EvExit 1])
       \<and> (\<forall>st. EvWait (Some st) \<in> set (parent_events (main env)) \<longrightarrow>
             st = W_EXITCODE 1 0 \<and> WIFEXITED st \<and> WEXITSTATUS st = 1
             \<and> (\<exists>pre. parent_events (main env) =
                   pre @ [EvWait (Some st), EvStderr msg_vulnerability, EvRaise SIGSEGV])
             \<and> outcome (main env) = (if sig_fatal env SIGSEGV then KilledBy SIGSEGV else Exited 0))
       \<and> parent_events (main env) =
           parent_events (main (env\<lparr>exec_res := ExecRuns (W_EXITCODE 1 0)\<rparr>))
       \<and> outcome (main env) = outcome (main (env\<lparr>exec_res := ExecRuns (W_EXITCODE 1 0)\<rparr>))"
proof (intro conjI allI impI)
  have argc: "2 \<le> length (argv env)"
  proof (rule ccontr)
    assume "\<not> 2 \<le> length (argv env)"
    then have "length (argv env) < 2" by simp
    from main_usage[OF this] assms show False by simp
  qed
  then show "\<exists>pre. child_events (main env) = pre @ [EvExec prog args, EvStderr msg_exec, EvExit 1]"
  proof (cases rule: main_cases)
    case (spawned n buf evs ib cevs st pevs e)
    from spawned(9,8) show ?thesis
    proof (cases rule: main_child_cases)
      case no_dup2
      with assms spawned(11) show ?thesis by simp
    next
      case no_exec
      with assms(1) spawned(11) have
        "[EvExec prog args] = [EvExec ''python3'' [''python3'', PYTHON_SCRIPT,
            takeWhile (\<lambda>c. c \<noteq> NUL) (map buf [0..<n])]]" by auto
      with no_exec spawned(11) have "child_events (main env) =
          [EvClose PipeWrite, EvDup2 True, EvClose PipeRead] @
          [EvExec prog args, EvStderr msg_exec, EvExit 1]" by simp
      then show ?thesis by blast
    next
      case exec
      with assms show ?thesis by simp
    qed
  qed (use assms in simp_all)
next
  fix st assume w: "EvWait (Some st) \<in> set (parent_events (main env))"
  have dup: "dup2_ok env"
  proof (rule ccontr)
    assume nd: "\<not> dup2_ok env"
    have argc: "2 \<le> length (argv env)"
    proof (rule ccontr)
      assume "\<not> 2 \<le> length (argv env)"
      then have "length (argv env) < 2" by simp
      from main_usage[OF this] assms show False by simp
    qed
    then show False
    proof (cases rule: main_cases)
      case (spawned n buf evs ib cevs st pevs e)
      from spawned(9,8) nd have "cevs = [EvClose PipeWrite, EvDup2 False, EvStderr msg_dup2, EvExit 1]"
        by (cases rule: main_child_cases) simp_all
      with assms(1) spawned(11) show False by simp
    qed (use assms in simp_all)
  qed
  from w obtain pre payload where
    evs: "parent_events (main env) =
       pre @ [EvWrite payload (int (length payload)), EvClose PipeWrite, EvWait (Some st)] @
       fst (main_status env st)"
    and out: "outcome (main env) = snd (main_status env st)"
    by (cases rule: main_waited) simp_all
  note st = main_wait_status[OF w]
  from st dup assms(2) show s1: "st = W_EXITCODE 1 0" by simp
  then show ex: "WIFEXITED st" and code: "WEXITSTATUS st = 1"
    by (simp_all add: W_EXITCODE_def WIFEXITED_def WTERMSIG_def WEXITSTATUS_def)
  then have ms: "main_status env st = ([EvStderr msg_vulnerability, EvRaise SIGSEGV],
      if sig_fatal env SIGSEGV then KilledBy SIGSEGV else Exited 0)"
    by (simp add: main_status_def)
  with evs have "parent_events (main env) =
      (pre @ [EvWrite payload (int (length payload)), EvClose PipeWrite]) @
      [EvWait (Some st), EvStderr msg_vulnerability, EvRaise SIGSEGV]" by simp
  then show "\<exists>pre. parent_events (main env) =
                   pre @ [EvWait (Some st), EvStderr msg_vulnerability, EvRaise SIGSEGV]"
    by blast
  from out ms show "outcome (main env) = (if sig_fatal env SIGSEGV then KilledBy SIGSEGV else Exited 0)"
    by simp
next
  from main_exec_fails_parent[OF assms(2)]
  show "parent_events (main env) =
           parent_events (main (env\<lparr>exec_res := ExecRuns (W_EXITCODE 1 0)\<rparr>))"
    and "outcome (main env) = outcome (main (env\<lparr>exec_res := ExecRuns (W_EXITCODE 1 0)\<rparr>))"
    by simp_all
qed

text \<open>C9, witness: \<open>env_exec_fails\<close> against \<open>env_script\<close>.\<close>

theorem exec_failure_reported_as_vulnerability_witness:
  "EvExec ''python3'' [''python3'', PYTHON_SCRIPT, ''<script>alert(1)</script>'']
     \<in> set (child_events (main env_exec_fails))
   \<and> exec_res env_exec_fails = ExecFails
   \<and> EvWait (Some 256) \<in> set (parent_events (main env_exec_fails))
   \<and> W_EXITCODE 1 0 = 256
   \<and> outcome (main env_exec_fails) = KilledBy SIGSEGV
   \<and> parent_events (main env_exec_fails) = parent_events (main env_script)
   \<and> outcome (main env_exec_fails) = outcome (main env_script)"
proof -
  have a: "EvExec ''python3'' [''python3'', PYTHON_SCRIPT, ''<script>alert(1)</script>'']
     \<in> set (child_events (main env_exec_fails))"
    by (simp add: run_env_exec_fails)
  have b: "exec_res env_exec_fails = ExecFails"
    by (simp add: env_exec_fails_def env_script_def)
  have c: "EvWait (Some 256) \<in> set (parent_events (main env_exec_fails))"
    by (simp add: run_env_exec_fails)
  have d: "env_exec_fails\<lparr>exec_res := ExecRuns (W_EXITCODE 1 0)\<rparr> = env_script"
    by (simp add: env_exec_fails_def env_script_def)
  have f: "sig_fatal env_exec_fails SIGSEGV"
    by (simp add: env_exec_fails_def env_script_def)
  have g: "W_EXITCODE 1 0 = 256" by (simp add: W_EXITCODE_def)
  note t = exec_failure_reported_as_vulnerability[OF a b]
  from t have "\<forall>st. EvWait (Some st) \<in> set (parent_events (main env_exec_fails)) \<longrightarrow>
      outcome (main env_exec_fails) =
        (if sig_fatal env_exec_fails SIGSEGV then KilledBy SIGSEGV else Exited 0)"
    by blast
  with c f have o: "outcome (main env_exec_fails) = KilledBy SIGSEGV" by auto
  from t have "parent_events (main env_exec_fails) =
      parent_events (main (env_exec_fails\<lparr>exec_res := ExecRuns (W_EXITCODE 1 0)\<rparr>))"
    and "outcome (main env_exec_fails) =
      outcome (main (env_exec_fails\<lparr>exec_res := ExecRuns (W_EXITCODE 1 0)\<rparr>))"
    by blast+
  then have e: "parent_events (main env_exec_fails) = parent_events (main env_script)"
    "outcome (main env_exec_fails) = outcome (main env_script)"
    by (simp_all only: d)
  from a b c g o e show ?thesis by blast
qed

end
